theory Spec2Isabelle
  imports Main
begin

section \<open>The vector machine under the kernel\<close>

text \<open>
  The kernel \<^verbatim>\<open>fconv2d_3x3\<close> is C with RISC-V vector inline assembly. Its meaning
  rests on two things the source file does not define: the double-precision arithmetic
  of the floating-point unit and the number of 64-bit elements that a group of two vector
  registers (\<^verbatim>\<open>e64, m2\<close>) holds. Both are parameters of the model.

  \<^item> \<open>fmul x t\<close> is the product computed by \<^verbatim>\<open>vfmul.vf\<close> (vector element times
    scalar); \<open>fmacc acc t x\<close> is the single multiply-accumulate \<open>t * x + acc\<close> computed by
    \<^verbatim>\<open>vfmacc.vf\<close>. Nothing is assumed about either: a theorem that holds for every
    choice of them fixes the operations, their operands and their order, whatever the
    rounding of one operation is.
  \<^item> \<open>vlmax\<close> is the architectural maximum vector length for \<^verbatim>\<open>e64, m2\<close>;
    \<^verbatim>\<open>vsetvli\<close> never grants more.
  \<^item> \<open>fzero\<close> is the value \<^verbatim>\<open>vslidedown\<close> supplies for a source element at or
    beyond \<open>vlmax\<close>.
\<close>

record 'a platform =
  vlmax :: nat
  fmul :: "'a \<Rightarrow> 'a \<Rightarrow> 'a"
  fmacc :: "'a \<Rightarrow> 'a \<Rightarrow> 'a \<Rightarrow> 'a"
  fzero :: 'a

text \<open>
  A register element or a memory cell is \<open>Some x\<close> when it holds the double \<open>x\<close> and
  \<open>None\<close> when its content is unspecified: a tail element after an instruction run under
  the tail-agnostic policy (\<^verbatim>\<open>ta\<close>), or anything computed from such an element.
\<close>

fun vf_mul :: "'a platform \<Rightarrow> 'a option \<Rightarrow> 'a option \<Rightarrow> 'a option" where
  "vf_mul hw (Some x) (Some t) = Some (fmul hw x t)"
| "vf_mul hw _ _ = None"

fun vf_macc :: "'a platform \<Rightarrow> 'a option \<Rightarrow> 'a option \<Rightarrow> 'a option \<Rightarrow> 'a option" where
  "vf_macc hw (Some acc) (Some t) (Some x) = Some (fmacc hw acc t x)"
| "vf_macc hw _ _ _ = None"

text \<open>
  Every memory access is recorded, in program order, with its byte address: an element
  read by \<^verbatim>\<open>vle64.v\<close>, a scalar read by \<^verbatim>\<open>fld\<close>, an element written by
  \<^verbatim>\<open>vse64.v\<close>.
\<close>

datatype access = VLoad nat | FLoad nat | VStore nat

text \<open>
  The machine state: the vector length set by the last \<^verbatim>\<open>vsetvli\<close>, the vector
  register file (register number, then element index), the memory (byte address of a
  double to its value) and the access trace. \<open>slide_src\<close> records, in program order,
  every register element that a \<^verbatim>\<open>vslidedown.vi\<close> has read: the source register and
  the element index.
\<close>

record 'a state =
  vl :: nat
  vreg :: "nat \<Rightarrow> nat \<Rightarrow> 'a option"
  mem :: "nat \<Rightarrow> 'a option"
  trace :: "access list"
  slide_src :: "(nat \<times> nat) list"

subsection \<open>Instructions\<close>

text \<open>
  One definition for each instruction the kernel uses, acting on the elements below the
  vector length; the elements from the vector length on become unspecified (\<^verbatim>\<open>ta\<close>).
  \<^verbatim>\<open>vslidedown.vi\<close> reads the source element \<open>k + imm\<close> for every \<open>k\<close> below the
  vector length, also where \<open>k + imm\<close> is beyond the vector length, and delivers the fill
  value where the register group has no such element. The kernel runs unmasked, so
  \<^verbatim>\<open>ma\<close> has no effect.

  \<^verbatim>\<open>vsetvli\<close> grants the requested length up to \<open>vlmax\<close>, as the comment in
  \<^verbatim>\<open>fconv2d_3x3\<close> describes it. The vector extension fixes the grant for a request of
  at most \<open>vlmax\<close> (the request) and for one of at least \<open>2 * vlmax\<close> (\<open>vlmax\<close>); in
  between a machine may also grant less than \<open>vlmax\<close>. The results below that depend on
  the length granted for a padded row are stated for \<open>C + 2 \<le> vlmax\<close>, where the grant
  is fixed; the runs that show a failure for a wide row request at least \<open>2 * vlmax\<close>.
\<close>

definition vsetvli :: "'a platform \<Rightarrow> nat \<Rightarrow> 'a state \<Rightarrow> 'a state" where
  "vsetvli hw avl s = s\<lparr>vl := min avl (vlmax hw)\<rparr>"

definition vle64_v :: "nat \<Rightarrow> nat \<Rightarrow> 'a state \<Rightarrow> 'a state" where
  "vle64_v vd a s =
     s\<lparr>vreg := (vreg s)(vd := (\<lambda>k. if k < vl s then mem s (a + 8 * k) else None)),
       trace := trace s @ map (\<lambda>k. VLoad (a + 8 * k)) [0..<vl s]\<rparr>"

definition vse64_v :: "nat \<Rightarrow> nat \<Rightarrow> 'a state \<Rightarrow> 'a state" where
  "vse64_v vs a s =
     s\<lparr>mem := (\<lambda>b. if a \<le> b \<and> b < a + 8 * vl s \<and> 8 dvd (b - a)
                     then vreg s vs ((b - a) div 8) else mem s b),
       trace := trace s @ map (\<lambda>k. VStore (a + 8 * k)) [0..<vl s]\<rparr>"

definition vfmul_vf :: "'a platform \<Rightarrow> nat \<Rightarrow> nat \<Rightarrow> 'a option \<Rightarrow> 'a state \<Rightarrow> 'a state" where
  "vfmul_vf hw vd vs2 t s =
     s\<lparr>vreg := (vreg s)(vd := (\<lambda>k. if k < vl s then vf_mul hw (vreg s vs2 k) t else None))\<rparr>"

definition vfmacc_vf :: "'a platform \<Rightarrow> nat \<Rightarrow> 'a option \<Rightarrow> nat \<Rightarrow> 'a state \<Rightarrow> 'a state" where
  "vfmacc_vf hw vd t vs2 s =
     s\<lparr>vreg := (vreg s)(vd := (\<lambda>k. if k < vl s
                                    then vf_macc hw (vreg s vd k) t (vreg s vs2 k) else None))\<rparr>"

definition vslidedown_vi :: "'a platform \<Rightarrow> nat \<Rightarrow> nat \<Rightarrow> nat \<Rightarrow> 'a state \<Rightarrow> 'a state" where
  "vslidedown_vi hw vd vs2 imm s =
     s\<lparr>vreg := (vreg s)(vd := (\<lambda>k. if k < vl s
                                    then (if k + imm < vlmax hw then vreg s vs2 (k + imm)
                                          else Some (fzero hw))
                                    else None)),
       slide_src := slide_src s @
         map (\<lambda>k. (vs2, k + imm)) (filter (\<lambda>k. k + imm < vlmax hw) [0..<vl s])\<rparr>"

definition vmv_v_v :: "nat \<Rightarrow> nat \<Rightarrow> 'a state \<Rightarrow> 'a state" where
  "vmv_v_v vd vs1 s =
     s\<lparr>vreg := (vreg s)(vd := (\<lambda>k. if k < vl s then vreg s vs1 k else None))\<rparr>"

definition fld :: "nat \<Rightarrow> 'a state \<Rightarrow> 'a option \<times> 'a state" where
  "fld a s = (mem s a, s\<lparr>trace := trace s @ [FLoad a]\<rparr>)"

text \<open>C pointer arithmetic on \<^verbatim>\<open>double *\<close>: one element is eight bytes.\<close>

definition ptr_add :: "nat \<Rightarrow> nat \<Rightarrow> nat" where
  "ptr_add p n = p + 8 * n"

section \<open>The kernel\<close>

text \<open>
  The four functions of \<^verbatim>\<open>fconv2d_3x3.c\<close>, instruction by instruction in the order of
  the source. The state \<open>s\<close> is threaded through; a C variable assigned several times is
  rebound. The source's \<^verbatim>\<open>o\<close>, \<^verbatim>\<open>o_\<close>, \<^verbatim>\<open>i_\<close>, \<^verbatim>\<open>i__\<close> and \<^verbatim>\<open>f_\<close> are
  \<open>ob\<close>, \<open>ob'\<close>, \<open>i'\<close>, \<open>i''\<close> and \<open>f'\<close> here. Pointers are byte addresses: the
  assembly adds the byte strides \<^verbatim>\<open>ldi\<close>, \<^verbatim>\<open>ldf\<close>, \<^verbatim>\<open>ldo\<close> (\<^verbatim>\<open>x << 3\<close>), the C
  code adds elements (\<open>ptr_add\<close>). A pointer increment whose result is never read again
  (after the last load or store of a function) is left out. The \<^verbatim>\<open>int64_t\<close> arguments are
  natural numbers: a valid call has positive sizes, and buffers of the declared sizes leave no
  room for the address arithmetic to wrap.
\<close>

definition fconv2d_vec_4xC_slice_preload_3x3 ::
  "'a platform \<Rightarrow> nat \<Rightarrow> nat \<Rightarrow> nat \<Rightarrow> 'a state \<Rightarrow> 'a state" where
  "fconv2d_vec_4xC_slice_preload_3x3 hw i C F s =
     (let ldi = push_bit 3 (C + F - 1);
          s = vsetvli hw (C + F - 1) s;
          s = vle64_v 8 i s; i = i + ldi;
          s = vle64_v 10 i s
      in s)"

definition fconv2d_vec_4xC_slice_move_3x3 ::
  "'a platform \<Rightarrow> nat \<Rightarrow> nat \<Rightarrow> 'a state \<Rightarrow> 'a state" where
  "fconv2d_vec_4xC_slice_move_3x3 hw C F s =
     (let s = vsetvli hw (C + F - 1) s;
          s = vmv_v_v 8 16 s;
          s = vmv_v_v 10 18 s
      in s)"

definition fconv2d_vec_4xC_3x3 ::
  "'a platform \<Rightarrow> nat \<Rightarrow> nat \<Rightarrow> nat \<Rightarrow> nat \<Rightarrow> nat \<Rightarrow> 'a state \<Rightarrow> 'a state" where
  "fconv2d_vec_4xC_3x3 hw ob i f C F s =
     (let ldo = push_bit 3 C;
          ldi = push_bit 3 (C + F - 1);
          ldf = push_bit 3 F;
          s = vsetvli hw (C + F - 1) s;
          f' = f;
          (t0, s) = fld f' s; f' = f' + ldf;
          (t1, s) = fld f' s; f' = f' + ldf;
          (t2, s) = fld f' s;
          s = vle64_v 12 i s; i = i + ldi;
          s = vfmul_vf hw 0 8 t0 s;
          s = vfmul_vf hw 2 10 t0 s;
          s = vle64_v 14 i s; i = i + ldi;
          s = vfmacc_vf hw 0 t1 10 s;
          s = vfmacc_vf hw 2 t1 12 s;
          s = vle64_v 16 i s; i = i + ldi;
          s = vfmacc_vf hw 0 t2 12 s;
          s = vslidedown_vi hw 20 8 1 s;
          s = vfmul_vf hw 4 12 t0 s;
          s = vle64_v 18 i s; i = i + ldi;
          s = vsetvli hw C s;
          s = vfmul_vf hw 6 14 t0 s;
          s = vfmacc_vf hw 4 t1 14 s;
          s = vslidedown_vi hw 22 10 1 s;
          s = vfmacc_vf hw 2 t2 14 s;
          s = vfmacc_vf hw 6 t1 16 s;
          s = vfmacc_vf hw 4 t2 16 s;
          s = vslidedown_vi hw 24 12 1 s;
          s = vfmacc_vf hw 6 t2 18 s;
          f' = ptr_add f 1;
          (t0, s) = fld f' s; f' = f' + ldf;
          (t1, s) = fld f' s; f' = f' + ldf;
          (t2, s) = fld f' s;
          s = vfmacc_vf hw 0 t0 20 s;
          s = vfmacc_vf hw 0 t1 22 s;
          s = vslidedown_vi hw 26 14 1 s;
          s = vfmacc_vf hw 2 t0 22 s;
          s = vfmacc_vf hw 0 t2 24 s;
          s = vfmacc_vf hw 2 t1 24 s;
          s = vslidedown_vi hw 28 16 1 s;
          s = vfmacc_vf hw 4 t0 24 s;
          s = vfmacc_vf hw 2 t2 26 s;
          s = vfmacc_vf hw 4 t1 26 s;
          s = vslidedown_vi hw 30 18 1 s;
          s = vfmacc_vf hw 6 t0 26 s;
          s = vfmacc_vf hw 4 t2 28 s;
          s = vslidedown_vi hw 20 8 2 s;
          s = vfmacc_vf hw 6 t1 28 s;
          s = vfmacc_vf hw 6 t2 30 s;
          s = vslidedown_vi hw 22 10 2 s;
          f' = ptr_add f 2;
          (t0, s) = fld f' s; f' = f' + ldf;
          (t1, s) = fld f' s; f' = f' + ldf;
          (t2, s) = fld f' s;
          s = vfmacc_vf hw 0 t0 20 s;
          s = vfmacc_vf hw 0 t1 22 s;
          s = vslidedown_vi hw 24 12 2 s;
          s = vfmacc_vf hw 2 t0 22 s;
          s = vfmacc_vf hw 0 t2 24 s;
          s = vse64_v 0 ob s; ob = ob + ldo;
          s = vslidedown_vi hw 26 14 2 s;
          s = vfmacc_vf hw 2 t1 24 s;
          s = vfmacc_vf hw 4 t0 24 s;
          s = vfmacc_vf hw 2 t2 26 s;
          s = vse64_v 2 ob s; ob = ob + ldo;
          s = vslidedown_vi hw 28 16 2 s;
          s = vfmacc_vf hw 4 t1 26 s;
          s = vfmacc_vf hw 6 t0 26 s;
          s = vfmacc_vf hw 4 t2 28 s;
          s = vslidedown_vi hw 30 18 2 s;
          s = vse64_v 4 ob s; ob = ob + ldo;
          s = vfmacc_vf hw 6 t1 28 s;
          s = vfmacc_vf hw 6 t2 30 s;
          s = vse64_v 6 ob s
      in s)"

text \<open>
  One round of the steady-state loop of \<^verbatim>\<open>fconv2d_3x3\<close> (the body of the
  \<^verbatim>\<open>for\<close> statement), with the loop-carried pointer \<open>i''\<close> (\<^verbatim>\<open>i__\<close>) and the
  machine state threaded through. \<open>t0\<close>, \<open>t1\<close>, \<open>t2\<close> are the scalars loaded once
  before the loop.
\<close>

definition block_size_o :: nat where
  "block_size_o = 4"

definition fconv2d_3x3_body ::
  "'a platform \<Rightarrow> nat \<Rightarrow> nat \<Rightarrow> nat \<Rightarrow> nat \<Rightarrow> nat \<Rightarrow>
   'a option \<Rightarrow> 'a option \<Rightarrow> 'a option \<Rightarrow> nat \<Rightarrow> nat \<times> 'a state \<Rightarrow> nat \<times> 'a state" where
  "fconv2d_3x3_body hw ob i f C F t0 t1 t2 r st =
     (let (i'', s) = st;
          ldi = push_bit 3 (C + F - 1);
          ldf = push_bit 3 F;
          s = vsetvli hw (C + F - 1) s;
          f' = f;
          s = vmv_v_v 8 16 s;
          s = vle64_v 12 i'' s; i'' = i'' + ldi;
          s = vfmul_vf hw 0 8 t0 s;
          s = vmv_v_v 10 18 s;
          s = vfmul_vf hw 2 10 t0 s;
          s = vle64_v 14 i'' s; i'' = i'' + ldi;
          s = vfmacc_vf hw 0 t1 10 s;
          s = vfmacc_vf hw 2 t1 12 s;
          s = vle64_v 16 i'' s; i'' = i'' + ldi;
          s = vfmacc_vf hw 0 t2 12 s;
          s = vslidedown_vi hw 20 8 1 s;
          s = vfmul_vf hw 4 12 t0 s;
          s = vle64_v 18 i'' s; i'' = i'' + ldi;
          s = vsetvli hw C s;
          s = vfmul_vf hw 6 14 t0 s;
          s = vslidedown_vi hw 22 10 1 s;
          s = vfmacc_vf hw 4 t1 14 s;
          s = vfmacc_vf hw 2 t2 14 s;
          s = vslidedown_vi hw 24 12 1 s;
          s = vfmacc_vf hw 6 t1 16 s;
          s = vfmacc_vf hw 4 t2 16 s;
          s = vslidedown_vi hw 26 14 1 s;
          s = vfmacc_vf hw 6 t2 18 s;
          f' = ptr_add f 1;
          (t3, s) = fld f' s; f' = f' + ldf;
          (t4, s) = fld f' s; f' = f' + ldf;
          (t5, s) = fld f' s;
          s = vfmacc_vf hw 0 t3 20 s;
          s = vfmacc_vf hw 0 t4 22 s;
          s = vslidedown_vi hw 28 16 1 s;
          s = vfmacc_vf hw 2 t3 22 s;
          i' = ptr_add i ((r + block_size_o) * (C + F - 1));
          s = vfmacc_vf hw 0 t5 24 s;
          s = vslidedown_vi hw 30 18 1 s;
          s = vfmacc_vf hw 2 t4 24 s;
          s = vfmacc_vf hw 4 t3 24 s;
          s = vslidedown_vi hw 20 8 2 s;
          s = vfmacc_vf hw 2 t5 26 s;
          s = vfmacc_vf hw 4 t4 26 s;
          s = vslidedown_vi hw 22 10 2 s;
          s = vfmacc_vf hw 6 t3 26 s;
          i'' = ptr_add i' ((F - 1) * (C + F - 1));
          s = vfmacc_vf hw 4 t5 28 s;
          f' = ptr_add f 2;
          (t3, s) = fld f' s; f' = f' + ldf;
          s = vfmacc_vf hw 6 t4 28 s;
          s = vslidedown_vi hw 24 12 2 s;
          s = vfmacc_vf hw 6 t5 30 s;
          s = vfmacc_vf hw 0 t3 20 s;
          s = vslidedown_vi hw 26 14 2 s;
          (t4, s) = fld f' s; f' = f' + ldf;
          (t5, s) = fld f' s;
          s = vfmacc_vf hw 0 t4 22 s;
          ob' = ptr_add ob (r * C);
          ldo = push_bit 3 C;
          s = vfmacc_vf hw 2 t3 22 s;
          s = vslidedown_vi hw 28 16 2 s;
          s = vfmacc_vf hw 0 t5 24 s;
          s = vfmacc_vf hw 2 t4 24 s;
          s = vslidedown_vi hw 30 18 2 s;
          s = vse64_v 0 ob' s; ob' = ob' + ldo;
          s = vfmacc_vf hw 4 t3 24 s;
          s = vfmacc_vf hw 2 t5 26 s;
          s = vse64_v 2 ob' s; ob' = ob' + ldo;
          s = vfmacc_vf hw 4 t4 26 s;
          s = vfmacc_vf hw 6 t3 26 s;
          s = vfmacc_vf hw 4 t5 28 s;
          s = vse64_v 4 ob' s; ob' = ob' + ldo;
          s = vfmacc_vf hw 6 t4 28 s;
          s = vfmacc_vf hw 6 t5 30 s;
          s = vse64_v 6 ob' s
      in (i'', s))"

text \<open>
  The \<^verbatim>\<open>for\<close> loop: \<^verbatim>\<open>for (r = block_size_o; r < R; r += block_size_o)\<close>. The
  function returns the loop variables as they are when the loop is left.
\<close>

function fconv2d_3x3_loop ::
  "'a platform \<Rightarrow> nat \<Rightarrow> nat \<Rightarrow> nat \<Rightarrow> nat \<Rightarrow> nat \<Rightarrow> nat \<Rightarrow>
   'a option \<Rightarrow> 'a option \<Rightarrow> 'a option \<Rightarrow> nat \<Rightarrow> nat \<times> 'a state \<Rightarrow> nat \<times> nat \<times> 'a state" where
  "fconv2d_3x3_loop hw ob i f R C F t0 t1 t2 r st =
     (if r < R
      then fconv2d_3x3_loop hw ob i f R C F t0 t1 t2 (r + block_size_o)
             (fconv2d_3x3_body hw ob i f C F t0 t1 t2 r st)
      else (r, st))"
  by pat_completeness auto
termination
  by (relation "measure (\<lambda>(hw, ob, i, f, R, C, F, t0, t1, t2, r, st). R - r)")
     (auto simp: block_size_o_def)

declare fconv2d_3x3_loop.simps [simp del]

text \<open>
  The part of \<^verbatim>\<open>fconv2d_3x3\<close> before the loop: the first round (\<open>r = 0\<close>), the
  pointers for the second round and the first filter column in \<open>t0\<close>, \<open>t1\<close>, \<open>t2\<close>.
\<close>

definition fconv2d_3x3_first ::
  "'a platform \<Rightarrow> nat \<Rightarrow> nat \<Rightarrow> nat \<Rightarrow> nat \<Rightarrow> nat \<Rightarrow> 'a state \<Rightarrow>
   ('a option \<times> 'a option \<times> 'a option) \<times> nat \<times> 'a state" where
  "fconv2d_3x3_first hw ob i f C F s =
     (let i' = i;
          ob' = ob;
          s = fconv2d_vec_4xC_slice_preload_3x3 hw i' C F s;
          i'' = ptr_add i' ((F - 1) * (C + F - 1));
          s = fconv2d_vec_4xC_3x3 hw ob' i'' f C F s;
          s = fconv2d_vec_4xC_slice_move_3x3 hw C F s;
          i' = ptr_add i (block_size_o * (C + F - 1));
          i'' = ptr_add i' ((F - 1) * (C + F - 1));
          ldi = push_bit 3 (C + F - 1);
          ldf = push_bit 3 F;
          f' = f;
          (t0, s) = fld f' s; f' = f' + ldf;
          (t1, s) = fld f' s; f' = f' + ldf;
          (t2, s) = fld f' s
      in ((t0, t1, t2), i'', s))"

definition fconv2d_3x3 ::
  "'a platform \<Rightarrow> nat \<Rightarrow> nat \<Rightarrow> nat \<Rightarrow> nat \<Rightarrow> nat \<Rightarrow> nat \<Rightarrow> 'a state \<Rightarrow> 'a state" where
  "fconv2d_3x3 hw ob i f R C F s =
     (let ((t0, t1, t2), st) = fconv2d_3x3_first hw ob i f C F s
      in snd (snd (fconv2d_3x3_loop hw ob i f R C F t0 t1 t2 block_size_o st)))"

section \<open>What the kernel is to compute\<close>

text \<open>
  The buffers as the interface declares them, all row-major: the filter is \<open>3 \<times> 3\<close>,
  the padded input has row stride \<open>C + 2\<close>, the output has row stride \<open>C\<close>.
\<close>

definition filter_at :: "(nat \<Rightarrow> 'a option) \<Rightarrow> nat \<Rightarrow> nat \<Rightarrow> nat \<Rightarrow> 'a option" where
  "filter_at m f i j = m (ptr_add f (3 * i + j))"

definition input_at :: "(nat \<Rightarrow> 'a option) \<Rightarrow> nat \<Rightarrow> nat \<Rightarrow> nat \<Rightarrow> nat \<Rightarrow> 'a option" where
  "input_at m i C r c = m (ptr_add i (r * (C + 2) + c))"

definition output_addr :: "nat \<Rightarrow> nat \<Rightarrow> nat \<Rightarrow> nat \<Rightarrow> nat" where
  "output_addr ob C r c = ptr_add ob (r * C + c)"

text \<open>
  The accumulation order of the specification: filter columns from left to right (\<open>j\<close> outer),
  within a column the row offsets from top to bottom (\<open>i\<close> inner). The accumulator starts as
  the first product (there is no zero fill) and every further term is one multiply-accumulate.
\<close>

definition taps :: "(nat \<times> nat) list" where
  "taps = [(j, i). j \<leftarrow> [0..<3], i \<leftarrow> [0..<3]]"

definition mac_chain ::
  "'a platform \<Rightarrow> (nat \<Rightarrow> nat \<Rightarrow> 'a option) \<Rightarrow> (nat \<Rightarrow> nat \<Rightarrow> 'a option) \<Rightarrow> 'a option" where
  "mac_chain hw coef elem =
     foldl (\<lambda>acc (j, i). vf_macc hw acc (coef i j) (elem i j))
       (vf_mul hw (elem 0 0) (coef 0 0)) (tl taps)"

text \<open>The reference of the specification: \<open>\<Sum>j \<Sum>i filter[i][j] * input[r+i][c+j]\<close> in that order.\<close>

definition conv_sum ::
  "'a platform \<Rightarrow> (nat \<Rightarrow> nat \<Rightarrow> 'a option) \<Rightarrow> (nat \<Rightarrow> nat \<Rightarrow> 'a option) \<Rightarrow> nat \<Rightarrow> nat \<Rightarrow> 'a option" where
  "conv_sum hw flt inp r c = mac_chain hw flt (\<lambda>i j. inp (r + i) (c + j))"

text \<open>
  What the machine delivers for element \<open>c\<close> of a row slid down by \<open>j\<close>: the element
  \<open>c + j\<close> of the row if the register group has such an element, the fill value otherwise.
  \<open>kernel_elem\<close> is the accumulation above over these elements.
\<close>

definition tap :: "'a platform \<Rightarrow> (nat \<Rightarrow> 'a option) \<Rightarrow> nat \<Rightarrow> nat \<Rightarrow> 'a option" where
  "tap hw row j c = (if c + j < vlmax hw then row (c + j) else Some (fzero hw))"

definition kernel_elem ::
  "'a platform \<Rightarrow> (nat \<Rightarrow> nat \<Rightarrow> 'a option) \<Rightarrow> (nat \<Rightarrow> nat \<Rightarrow> 'a option) \<Rightarrow> nat \<Rightarrow> nat \<Rightarrow> 'a option" where
  "kernel_elem hw flt inp r c = mac_chain hw flt (\<lambda>i j. tap hw (inp (r + i)) j c)"

text \<open>
  The six rows a block works on: two register groups \<open>va\<close>, \<open>vb\<close> of the state in which the
  block starts, and four rows in memory from the address \<open>i\<close> on. The first column of the
  filter as the loop has it: in the scalars loaded before the loop.
\<close>

definition win :: "'a state \<Rightarrow> nat \<Rightarrow> nat \<Rightarrow> nat \<Rightarrow> nat \<Rightarrow> nat \<Rightarrow> nat \<Rightarrow> 'a option" where
  "win s va vb i C n =
     (if n = 0 then vreg s va else if n = 1 then vreg s vb
      else (\<lambda>l. mem s (ptr_add i ((n - 2) * (C + 2) + l))))"

definition coef0 ::
  "'a option \<Rightarrow> 'a option \<Rightarrow> 'a option \<Rightarrow> (nat \<Rightarrow> 'a option) \<Rightarrow> nat \<Rightarrow> nat \<Rightarrow> nat \<Rightarrow> 'a option" where
  "coef0 t0 t1 t2 m f i j =
     (if j = 0 then (if i = 0 then t0 else if i = 1 then t1 else t2) else filter_at m f i j)"

text \<open>
  A valid call: \<open>R\<close> a positive multiple of four, at least one column, and the output buffer
  overlapping neither the input nor the filter buffer (addresses are byte addresses).
\<close>

definition valid_call :: "nat \<Rightarrow> nat \<Rightarrow> nat \<Rightarrow> nat \<Rightarrow> nat \<Rightarrow> bool" where
  "valid_call ob i f R C \<longleftrightarrow>
     0 < R \<and> 4 dvd R \<and> 1 \<le> C \<and>
     (ptr_add ob (R * C) \<le> i \<or> ptr_add i ((R + 2) * (C + 2)) \<le> ob) \<and>
     (ptr_add ob (R * C) \<le> f \<or> ptr_add f 9 \<le> ob)"

text \<open>The state when the loop has gone round \<open>n\<close> times, from the state \<open>st\<close> at its head.\<close>

primrec rounds ::
  "'a platform \<Rightarrow> nat \<Rightarrow> nat \<Rightarrow> nat \<Rightarrow> nat \<Rightarrow> nat \<Rightarrow>
   'a option \<Rightarrow> 'a option \<Rightarrow> 'a option \<Rightarrow> nat \<Rightarrow> nat \<times> 'a state \<Rightarrow> nat \<times> 'a state" where
  "rounds hw ob i f C F t0 t1 t2 0 st = st"
| "rounds hw ob i f C F t0 t1 t2 (Suc n) st =
     fconv2d_3x3_body hw ob i f C F t0 t1 t2 (block_size_o * Suc n)
       (rounds hw ob i f C F t0 t1 t2 n st)"

text \<open>Reading the access trace.\<close>

definition load_row :: "nat \<Rightarrow> nat \<Rightarrow> access list" where
  "load_row a n = map (\<lambda>k. VLoad (ptr_add a k)) [0..<n]"

definition store_row :: "nat \<Rightarrow> nat \<Rightarrow> access list" where
  "store_row a n = map (\<lambda>k. VStore (ptr_add a k)) [0..<n]"

fun stores_of :: "access list \<Rightarrow> nat list" where
  "stores_of [] = []"
| "stores_of (VStore a # tr) = a # stores_of tr"
| "stores_of (e # tr) = stores_of tr"

definition in_buf :: "nat \<Rightarrow> nat \<Rightarrow> nat \<Rightarrow> bool" where
  "in_buf base n a \<longleftrightarrow> base \<le> a \<and> 8 dvd (a - base) \<and> (a - base) div 8 < n"

fun access_ok :: "nat \<Rightarrow> nat \<Rightarrow> nat \<Rightarrow> nat \<Rightarrow> nat \<Rightarrow> access \<Rightarrow> bool" where
  "access_ok ob i f R C (VLoad a) = in_buf i ((R + 2) * (C + 2)) a"
| "access_ok ob i f R C (FLoad a) = in_buf f 9 a"
| "access_ok ob i f R C (VStore a) = in_buf ob (R * C) a"

text \<open>
  Reading the record of the slides: \<open>slide_row hw v imm n\<close> are the elements that one
  \<^verbatim>\<open>vslidedown.vi\<close> by \<open>imm\<close> reads from the register \<open>v\<close> under the vector
  length \<open>n\<close>.
\<close>

definition slide_row :: "'a platform \<Rightarrow> nat \<Rightarrow> nat \<Rightarrow> nat \<Rightarrow> (nat \<times> nat) list" where
  "slide_row hw v imm n = map (\<lambda>k. (v, k + imm)) (filter (\<lambda>k. k + imm < vlmax hw) [0..<n])"

text \<open>
  The state at the end of the first block, inside \<^verbatim>\<open>fconv2d_3x3\<close>: after the preload
  and the call of \<^verbatim>\<open>fconv2d_vec_4xC_3x3\<close>, before the rows are moved.
\<close>

definition first_block ::
  "'a platform \<Rightarrow> nat \<Rightarrow> nat \<Rightarrow> nat \<Rightarrow> nat \<Rightarrow> nat \<Rightarrow> 'a state \<Rightarrow> 'a state" where
  "first_block hw ob i f C F s =
     fconv2d_vec_4xC_3x3 hw ob (ptr_add i ((F - 1) * (C + F - 1))) f C F
       (fconv2d_vec_4xC_slice_preload_3x3 hw i C F s)"

text \<open>
  The loop invariant. With \<open>b\<close> blocks done and \<open>m0\<close> the memory at the call: the input
  pointer stands at row \<open>4b + 2\<close>; memory outside the first \<open>4b\<close> output rows is as it was;
  every element stored so far is the accumulation over the elements the machine delivers;
  \<^verbatim>\<open>v16\<close> and \<^verbatim>\<open>v18\<close> hold the input rows \<open>4b\<close> and \<open>4b + 1\<close>.
\<close>

definition blocks_done ::
  "'a platform \<Rightarrow> nat \<Rightarrow> nat \<Rightarrow> nat \<Rightarrow> nat \<Rightarrow> (nat \<Rightarrow> 'a option) \<Rightarrow> nat \<Rightarrow>
   nat \<times> 'a state \<Rightarrow> bool" where
  "blocks_done hw ob i f C m0 b st \<longleftrightarrow>
     fst st = ptr_add i ((4 * b + 2) * (C + 2)) \<and>
     (\<forall>a. a < ob \<or> ptr_add ob (4 * b * C) \<le> a \<longrightarrow> mem (snd st) a = m0 a) \<and>
     (\<forall>r c. r < 4 * b \<longrightarrow> c < C \<longrightarrow> c < vlmax hw \<longrightarrow>
        mem (snd st) (output_addr ob C r c) =
          kernel_elem hw (filter_at m0 f) (input_at m0 i C) r c) \<and>
     (\<forall>l. l < C + 2 \<longrightarrow> l < vlmax hw \<longrightarrow>
        vreg (snd st) 16 l = input_at m0 i C (4 * b) l \<and>
        vreg (snd st) 18 l = input_at m0 i C (4 * b + 1) l)"


text \<open>
  The addresses of the first \<open>n\<close> elements of output row \<open>r\<close>, and the accesses a run has
  added to the trace.
\<close>

definition row_cells :: "nat \<Rightarrow> nat \<Rightarrow> nat \<Rightarrow> nat \<Rightarrow> nat list" where
  "row_cells ob C n r = map (output_addr ob C r) [0..<n]"

definition new_accesses :: "'a state \<Rightarrow> 'a state \<Rightarrow> access list" where
  "new_accesses s s' = drop (length (trace s)) (trace s')"

text \<open>
  The register elements that the slides of a run have read. Such a read is within the row if
  it is of one of the \<open>C + 2\<close> elements that a row load fills; \<open>slide_ok\<close> allows one
  more, element \<open>C + 2\<close> of \<^verbatim>\<open>v8\<close>.
\<close>

definition new_slides :: "'a state \<Rightarrow> 'a state \<Rightarrow> (nat \<times> nat) list" where
  "new_slides s s' = drop (length (slide_src s)) (slide_src s')"

definition slide_in_row :: "nat \<Rightarrow> nat \<times> nat \<Rightarrow> bool" where
  "slide_in_row C x \<longleftrightarrow> snd x < C + 2"

definition slide_ok :: "nat \<Rightarrow> nat \<times> nat \<Rightarrow> bool" where
  "slide_ok C x \<longleftrightarrow> slide_in_row C x \<or> x = (8, C + 2)"

subsection \<open>Concrete platforms and states\<close>

text \<open>
  For concrete runs the doubles are replaced by integers, with exact product and
  multiply-accumulate, on a machine whose register group holds \<open>n\<close> elements. In
  \<open>image_state\<close> the double at byte address \<open>a\<close> is \<open>a div 8\<close>; in \<open>ones_state v\<close> every
  double is \<open>1\<close> except the one at address \<open>1640\<close>, which is \<open>v\<close>. The runs below put the
  input at address \<open>0\<close>, the filter at \<open>800\<close> and the output at \<open>1600\<close>, so that \<open>1640\<close> is
  element \<open>5\<close> of the output buffer.
\<close>

definition hw_int :: "nat \<Rightarrow> int platform" where
  "hw_int n = \<lparr>vlmax = n, fmul = (\<lambda>x t. x * t), fmacc = (\<lambda>acc t x. t * x + acc), fzero = 0\<rparr>"

definition image_state :: "int state" where
  "image_state = \<lparr>vl = 0, vreg = (\<lambda>r k. None), mem = (\<lambda>a. Some (int (a div 8))), trace = [], slide_src = []\<rparr>"

definition ones_state :: "int \<Rightarrow> int state" where
  "ones_state v =
     \<lparr>vl = 0, vreg = (\<lambda>r k. None), mem = (\<lambda>a. if a = 1640 then Some v else Some 1), trace = [], slide_src = []\<rparr>"

text \<open>
  A state whose register groups \<open>va\<close> and \<open>vb\<close> hold two rows (\<open>k\<close> and \<open>k + 10\<close> in element
  \<open>k\<close>) and whose memory is that of \<open>image_state\<close>.
\<close>

definition window_state :: "nat \<Rightarrow> nat \<Rightarrow> int state" where
  "window_state va vb =
     \<lparr>vl = 0,
      vreg = (\<lambda>r k. if r = va then Some (int k) else if r = vb then Some (int k + 10) else None),
      mem = (\<lambda>a. Some (int (a div 8))), trace = [], slide_src = []\<rparr>"

section \<open>Single instructions\<close>

lemma vl_simps:
  "vl (vsetvli hw avl s) = min avl (vlmax hw)"
  "vl (vle64_v vd a s) = vl s"
  "vl (vse64_v vs a s) = vl s"
  "vl (vfmul_vf hw vd vs2 t s) = vl s"
  "vl (vfmacc_vf hw vd t vs2 s) = vl s"
  "vl (vslidedown_vi hw vd vs2 imm s) = vl s"
  "vl (vmv_v_v vd vs1 s) = vl s"
  "vl (snd (fld a s)) = vl s"
  by (simp_all add: vsetvli_def vle64_v_def vse64_v_def vfmul_vf_def vfmacc_vf_def
      vslidedown_vi_def vmv_v_v_def fld_def)

lemma mem_simps:
  "mem (vsetvli hw avl s) = mem s"
  "mem (vle64_v vd a s) = mem s"
  "mem (vfmul_vf hw vd vs2 t s) = mem s"
  "mem (vfmacc_vf hw vd t vs2 s) = mem s"
  "mem (vslidedown_vi hw vd vs2 imm s) = mem s"
  "mem (vmv_v_v vd vs1 s) = mem s"
  "mem (snd (fld a s)) = mem s"
  "fst (fld a s) = mem s a"
  by (simp_all add: vsetvli_def vle64_v_def vse64_v_def vfmul_vf_def vfmacc_vf_def
      vslidedown_vi_def vmv_v_v_def fld_def)

lemma mem_vse64_v:
  "mem (vse64_v vs a s) b =
     (if a \<le> b \<and> b < a + 8 * vl s \<and> 8 dvd (b - a) then vreg s vs ((b - a) div 8) else mem s b)"
  by (simp add: vse64_v_def)

lemma mem_vse64_v_frame:
  "b < a \<or> a + 8 * vl s \<le> b \<Longrightarrow> mem (vse64_v vs a s) b = mem s b"
  by (auto simp: vse64_v_def)

lemma vreg_same:
  "k < vl s \<Longrightarrow> vreg (vle64_v vd a s) vd k = mem s (a + 8 * k)"
  "k < vl s \<Longrightarrow> vreg (vfmul_vf hw vd vs2 t s) vd k = vf_mul hw (vreg s vs2 k) t"
  "k < vl s \<Longrightarrow> vreg (vfmacc_vf hw vd t vs2 s) vd k = vf_macc hw (vreg s vd k) t (vreg s vs2 k)"
  "k < vl s \<Longrightarrow> vreg (vslidedown_vi hw vd vs2 imm s) vd k =
      (if k + imm < vlmax hw then vreg s vs2 (k + imm) else Some (fzero hw))"
  "k < vl s \<Longrightarrow> vreg (vmv_v_v vd vs1 s) vd k = vreg s vs1 k"
  by (simp_all add: vle64_v_def vfmul_vf_def vfmacc_vf_def vslidedown_vi_def vmv_v_v_def)

lemma vreg_other:
  "vreg (vsetvli hw avl s) = vreg s"
  "vreg (vse64_v vs a s) = vreg s"
  "vreg (snd (fld a s)) = vreg s"
  "r \<noteq> vd \<Longrightarrow> vreg (vle64_v vd a s) r = vreg s r"
  "r \<noteq> vd \<Longrightarrow> vreg (vfmul_vf hw vd vs2 t s) r = vreg s r"
  "r \<noteq> vd \<Longrightarrow> vreg (vfmacc_vf hw vd t vs2 s) r = vreg s r"
  "r \<noteq> vd \<Longrightarrow> vreg (vslidedown_vi hw vd vs2 imm s) r = vreg s r"
  "r \<noteq> vd \<Longrightarrow> vreg (vmv_v_v vd vs1 s) r = vreg s r"
  by (simp_all add: vsetvli_def vse64_v_def fld_def vle64_v_def vfmul_vf_def vfmacc_vf_def
      vslidedown_vi_def vmv_v_v_def)

lemma trace_simps:
  "trace (vsetvli hw avl s) = trace s"
  "trace (vle64_v vd a s) = trace s @ map (\<lambda>k. VLoad (a + 8 * k)) [0..<vl s]"
  "trace (vse64_v vs a s) = trace s @ map (\<lambda>k. VStore (a + 8 * k)) [0..<vl s]"
  "trace (vfmul_vf hw vd vs2 t s) = trace s"
  "trace (vfmacc_vf hw vd t vs2 s) = trace s"
  "trace (vslidedown_vi hw vd vs2 imm s) = trace s"
  "trace (vmv_v_v vd vs1 s) = trace s"
  "trace (snd (fld a s)) = trace s @ [FLoad a]"
  by (simp_all add: vsetvli_def vle64_v_def vse64_v_def vfmul_vf_def vfmacc_vf_def
      vslidedown_vi_def vmv_v_v_def fld_def)

lemma slide_simps:
  "slide_src (vsetvli hw avl s) = slide_src s"
  "slide_src (vle64_v vd a s) = slide_src s"
  "slide_src (vse64_v vs a s) = slide_src s"
  "slide_src (vfmul_vf hw vd vs2 t s) = slide_src s"
  "slide_src (vfmacc_vf hw vd t vs2 s) = slide_src s"
  "slide_src (vslidedown_vi hw vd vs2 imm s) = slide_src s @ slide_row hw vs2 imm (vl s)"
  "slide_src (vmv_v_v vd vs1 s) = slide_src s"
  "slide_src (snd (fld a s)) = slide_src s"
  by (simp_all add: vsetvli_def vle64_v_def vse64_v_def vfmul_vf_def vfmacc_vf_def
      vslidedown_vi_def vmv_v_v_def fld_def slide_row_def)

lemmas step_simps = vl_simps mem_simps vreg_same vreg_other

lemma shl3: "push_bit 3 (n::nat) = 8 * n"
  by (simp add: push_bit_eq_mult)

lemma taps_eq: "taps = [(0,0),(0,1),(0,2),(1,0),(1,1),(1,2),(2,0),(2,1),(2,2)]"
  by code_simp

lemmas out_simps = step_simps mem_vse64_v ptr_add_def shl3 mac_chain_def taps_eq tap_def win_def
  coef0_def filter_at_def add_ac

section \<open>The block of the first round\<close>

lemma helper_out:
  assumes "q < 4" "c < C" "c < vlmax hw"
  shows "mem (fconv2d_vec_4xC_3x3 hw ob i f C 3 s) (ptr_add ob (q * C + c)) =
         mac_chain hw (filter_at (mem s) f) (\<lambda>n j. tap hw (win s 8 10 i C (q + n)) j c)"
proof -
  from assms(1) consider "q = 0" | "q = 1" | "q = 2" | "q = 3" by linarith
  then show ?thesis
  proof cases
    case 1
    show ?thesis using assms(2,3) unfolding 1 fconv2d_vec_4xC_3x3_def Let_def case_prod_beta
      by (simp add: out_simps cong: if_cong split del: if_split)
  next
    case 2
    show ?thesis using assms(2,3) unfolding 2 fconv2d_vec_4xC_3x3_def Let_def case_prod_beta
      by (simp add: out_simps cong: if_cong split del: if_split)
  next
    case 3
    show ?thesis using assms(2,3) unfolding 3 fconv2d_vec_4xC_3x3_def Let_def case_prod_beta
      by (simp add: out_simps cong: if_cong split del: if_split)
  next
    case 4
    show ?thesis using assms(2,3) unfolding 4 fconv2d_vec_4xC_3x3_def Let_def case_prod_beta
      by (simp add: out_simps cong: if_cong split del: if_split)
  qed
qed

lemma helper_frame:
  assumes "a < ob \<or> ptr_add ob (4 * C) \<le> a"
  shows "mem (fconv2d_vec_4xC_3x3 hw ob i f C 3 s) a = mem s a"
proof -
  define n where "n = min C (vlmax hw)"
  have n: "min C (vlmax hw) = n" "n \<le> C" by (simp_all add: n_def)
  from assms show ?thesis
  proof
    assume "a < ob"
    then show ?thesis unfolding fconv2d_vec_4xC_3x3_def Let_def case_prod_beta
      by (simp add: step_simps mem_vse64_v_frame n shl3)
  next
    assume "ptr_add ob (4 * C) \<le> a"
    then show ?thesis using n(2) unfolding fconv2d_vec_4xC_3x3_def Let_def case_prod_beta
      by (simp add: step_simps mem_vse64_v_frame n(1) shl3 ptr_add_def)
  qed
qed


lemma helper_load:
  assumes "l < C + 2" "l < vlmax hw"
  shows "vreg (fconv2d_vec_4xC_3x3 hw ob i f C 3 s) 12 l = mem s (ptr_add i l)"
    and "vreg (fconv2d_vec_4xC_3x3 hw ob i f C 3 s) 14 l = mem s (ptr_add i ((C + 2) + l))"
    and "vreg (fconv2d_vec_4xC_3x3 hw ob i f C 3 s) 16 l = mem s (ptr_add i (2 * (C + 2) + l))"
    and "vreg (fconv2d_vec_4xC_3x3 hw ob i f C 3 s) 18 l = mem s (ptr_add i (3 * (C + 2) + l))"
  using assms unfolding fconv2d_vec_4xC_3x3_def Let_def case_prod_beta
  by (simp_all add: step_simps shl3 ptr_add_def add_ac)

lemma helper_trace:
  "trace (fconv2d_vec_4xC_3x3 hw ob i f C 3 s) =
     trace s @ [FLoad f, FLoad (ptr_add f 3), FLoad (ptr_add f 6)]
     @ load_row i (min (C + 2) (vlmax hw))
     @ load_row (ptr_add i (C + 2)) (min (C + 2) (vlmax hw))
     @ load_row (ptr_add i (2 * (C + 2))) (min (C + 2) (vlmax hw))
     @ load_row (ptr_add i (3 * (C + 2))) (min (C + 2) (vlmax hw))
     @ [FLoad (ptr_add f 1), FLoad (ptr_add f 4), FLoad (ptr_add f 7),
        FLoad (ptr_add f 2), FLoad (ptr_add f 5), FLoad (ptr_add f 8)]
     @ store_row ob (min C (vlmax hw))
     @ store_row (ptr_add ob C) (min C (vlmax hw))
     @ store_row (ptr_add ob (2 * C)) (min C (vlmax hw))
     @ store_row (ptr_add ob (3 * C)) (min C (vlmax hw))"
  unfolding fconv2d_vec_4xC_3x3_def Let_def case_prod_beta
  by (simp add: step_simps trace_simps shl3 ptr_add_def load_row_def store_row_def add_ac)

lemma helper_slides:
  "slide_src (fconv2d_vec_4xC_3x3 hw ob i f C 3 s) =
     slide_src s @ slide_row hw 8 1 (min (C + 2) (vlmax hw))
     @ slide_row hw 10 1 (min C (vlmax hw)) @ slide_row hw 12 1 (min C (vlmax hw))
     @ slide_row hw 14 1 (min C (vlmax hw)) @ slide_row hw 16 1 (min C (vlmax hw))
     @ slide_row hw 18 1 (min C (vlmax hw)) @ slide_row hw 8 2 (min C (vlmax hw))
     @ slide_row hw 10 2 (min C (vlmax hw)) @ slide_row hw 12 2 (min C (vlmax hw))
     @ slide_row hw 14 2 (min C (vlmax hw)) @ slide_row hw 16 2 (min C (vlmax hw))
     @ slide_row hw 18 2 (min C (vlmax hw))"
  unfolding fconv2d_vec_4xC_3x3_def Let_def case_prod_beta
  by (simp add: vl_simps slide_simps)

lemma helper_skip:
  assumes "q < 4" "vlmax hw \<le> c" "c < C"
  shows "mem (fconv2d_vec_4xC_3x3 hw ob i f C 3 s) (ptr_add ob (q * C + c)) =
           mem s (ptr_add ob (q * C + c))"
proof -
  have n: "min C (vlmax hw) = vlmax hw" using assms(2,3) by simp
  from assms(1) consider "q = 0" | "q = 1" | "q = 2" | "q = 3" by linarith
  then show ?thesis
  proof cases
    case 1
    show ?thesis using assms(2,3) unfolding 1 fconv2d_vec_4xC_3x3_def Let_def case_prod_beta
      by (simp add: step_simps mem_vse64_v_frame n shl3 ptr_add_def)
  next
    case 2
    show ?thesis using assms(2,3) unfolding 2 fconv2d_vec_4xC_3x3_def Let_def case_prod_beta
      by (simp add: step_simps mem_vse64_v_frame n shl3 ptr_add_def)
  next
    case 3
    show ?thesis using assms(2,3) unfolding 3 fconv2d_vec_4xC_3x3_def Let_def case_prod_beta
      by (simp add: step_simps mem_vse64_v_frame n shl3 ptr_add_def)
  next
    case 4
    show ?thesis using assms(2,3) unfolding 4 fconv2d_vec_4xC_3x3_def Let_def case_prod_beta
      by (simp add: step_simps mem_vse64_v_frame n shl3 ptr_add_def)
  qed
qed

section \<open>The block of the loop\<close>

lemma body_out:
  assumes "q < 4" "c < C" "c < vlmax hw"
  shows "mem (snd (fconv2d_3x3_body hw ob i f C 3 t0 t1 t2 r (i'', s)))
           (ptr_add (ptr_add ob (r * C)) (q * C + c)) =
         mac_chain hw (coef0 t0 t1 t2 (mem s) f) (\<lambda>n j. tap hw (win s 16 18 i'' C (q + n)) j c)"
proof -
  from assms(1) consider "q = 0" | "q = 1" | "q = 2" | "q = 3" by linarith
  then show ?thesis
  proof cases
    case 1
    show ?thesis using assms(2,3) unfolding 1 fconv2d_3x3_body_def Let_def case_prod_beta
      by (simp add: out_simps cong: if_cong split del: if_split)
  next
    case 2
    show ?thesis using assms(2,3) unfolding 2 fconv2d_3x3_body_def Let_def case_prod_beta
      by (simp add: out_simps cong: if_cong split del: if_split)
  next
    case 3
    show ?thesis using assms(2,3) unfolding 3 fconv2d_3x3_body_def Let_def case_prod_beta
      by (simp add: out_simps cong: if_cong split del: if_split)
  next
    case 4
    show ?thesis using assms(2,3) unfolding 4 fconv2d_3x3_body_def Let_def case_prod_beta
      by (simp add: out_simps cong: if_cong split del: if_split)
  qed
qed

lemma body_frame:
  assumes "a < ptr_add ob (r * C) \<or> ptr_add (ptr_add ob (r * C)) (4 * C) \<le> a"
  shows "mem (snd (fconv2d_3x3_body hw ob i f C 3 t0 t1 t2 r (i'', s))) a = mem s a"
proof -
  define n where "n = min C (vlmax hw)"
  have n: "min C (vlmax hw) = n" "n \<le> C" by (simp_all add: n_def)
  from assms show ?thesis
  proof
    assume "a < ptr_add ob (r * C)"
    then show ?thesis unfolding fconv2d_3x3_body_def Let_def case_prod_beta
      by (simp add: step_simps mem_vse64_v_frame n shl3 ptr_add_def)
  next
    assume "ptr_add (ptr_add ob (r * C)) (4 * C) \<le> a"
    then show ?thesis using n(2) unfolding fconv2d_3x3_body_def Let_def case_prod_beta
      by (simp add: step_simps mem_vse64_v_frame n(1) shl3 ptr_add_def)
  qed
qed


lemma body_load:
  assumes "l < C + 2" "l < vlmax hw"
  shows "vreg (snd (fconv2d_3x3_body hw ob i f C 3 t0 t1 t2 r (i'', s))) 12 l = mem s (ptr_add i'' l)"
    and "vreg (snd (fconv2d_3x3_body hw ob i f C 3 t0 t1 t2 r (i'', s))) 14 l =
           mem s (ptr_add i'' ((C + 2) + l))"
    and "vreg (snd (fconv2d_3x3_body hw ob i f C 3 t0 t1 t2 r (i'', s))) 16 l =
           mem s (ptr_add i'' (2 * (C + 2) + l))"
    and "vreg (snd (fconv2d_3x3_body hw ob i f C 3 t0 t1 t2 r (i'', s))) 18 l =
           mem s (ptr_add i'' (3 * (C + 2) + l))"
  using assms unfolding fconv2d_3x3_body_def Let_def case_prod_beta
  by (simp_all add: step_simps shl3 ptr_add_def add_ac)

lemma body_ptr:
  "fst (fconv2d_3x3_body hw ob i f C 3 t0 t1 t2 r (i'', s)) =
     ptr_add i ((r + 4 + 2) * (C + 2))"
  unfolding fconv2d_3x3_body_def Let_def case_prod_beta
  by (simp add: ptr_add_def block_size_o_def algebra_simps)

lemma body_trace:
  "trace (snd (fconv2d_3x3_body hw ob i f C 3 t0 t1 t2 r (i'', s))) =
     trace s
     @ load_row i'' (min (C + 2) (vlmax hw))
     @ load_row (ptr_add i'' (C + 2)) (min (C + 2) (vlmax hw))
     @ load_row (ptr_add i'' (2 * (C + 2))) (min (C + 2) (vlmax hw))
     @ load_row (ptr_add i'' (3 * (C + 2))) (min (C + 2) (vlmax hw))
     @ [FLoad (ptr_add f 1), FLoad (ptr_add f 4), FLoad (ptr_add f 7),
        FLoad (ptr_add f 2), FLoad (ptr_add f 5), FLoad (ptr_add f 8)]
     @ store_row (ptr_add ob (r * C)) (min C (vlmax hw))
     @ store_row (ptr_add ob (r * C + C)) (min C (vlmax hw))
     @ store_row (ptr_add ob (r * C + 2 * C)) (min C (vlmax hw))
     @ store_row (ptr_add ob (r * C + 3 * C)) (min C (vlmax hw))"
  unfolding fconv2d_3x3_body_def Let_def case_prod_beta
  by (simp add: step_simps trace_simps shl3 ptr_add_def load_row_def store_row_def add_ac)

lemma body_slides:
  "slide_src (snd (fconv2d_3x3_body hw ob i f C 3 t0 t1 t2 r (i'', s))) =
     slide_src s @ slide_row hw 8 1 (min (C + 2) (vlmax hw))
     @ slide_row hw 10 1 (min C (vlmax hw)) @ slide_row hw 12 1 (min C (vlmax hw))
     @ slide_row hw 14 1 (min C (vlmax hw)) @ slide_row hw 16 1 (min C (vlmax hw))
     @ slide_row hw 18 1 (min C (vlmax hw)) @ slide_row hw 8 2 (min C (vlmax hw))
     @ slide_row hw 10 2 (min C (vlmax hw)) @ slide_row hw 12 2 (min C (vlmax hw))
     @ slide_row hw 14 2 (min C (vlmax hw)) @ slide_row hw 16 2 (min C (vlmax hw))
     @ slide_row hw 18 2 (min C (vlmax hw))"
  unfolding fconv2d_3x3_body_def Let_def case_prod_beta
  by (simp add: vl_simps slide_simps)

text \<open>A store changes memory only where the trace records it.\<close>

lemma vse64_v_writes:
  "mem (vse64_v vs a s) b = mem s b \<or> VStore b \<in> set (trace (vse64_v vs a s))"
proof (cases "a \<le> b \<and> b < a + 8 * vl s \<and> 8 dvd (b - a)")
  case True
  then have "b = a + 8 * ((b - a) div 8)" "(b - a) div 8 < vl s" by auto
  then have "VStore b \<in> (\<lambda>k. VStore (a + 8 * k)) ` {0..<vl s}" by (metis atLeastLessThan_iff imageI zero_le)
  with True show ?thesis by (simp add: vse64_v_def)
next
  case False
  then show ?thesis by (auto simp: vse64_v_def)
qed

section \<open>Preload and move\<close>

lemma preload_mem: "mem (fconv2d_vec_4xC_slice_preload_3x3 hw i C 3 s) = mem s"
  unfolding fconv2d_vec_4xC_slice_preload_3x3_def Let_def by (simp add: step_simps)

lemma preload_rows:
  assumes "l < C + 2" "l < vlmax hw"
  shows "vreg (fconv2d_vec_4xC_slice_preload_3x3 hw i C 3 s) 8 l = mem s (ptr_add i l)"
    and "vreg (fconv2d_vec_4xC_slice_preload_3x3 hw i C 3 s) 10 l = mem s (ptr_add i ((C + 2) + l))"
  using assms unfolding fconv2d_vec_4xC_slice_preload_3x3_def Let_def
  by (simp_all add: step_simps shl3 ptr_add_def add_ac)

lemma preload_trace:
  "trace (fconv2d_vec_4xC_slice_preload_3x3 hw i C 3 s) =
     trace s @ load_row i (min (C + 2) (vlmax hw))
             @ load_row (ptr_add i (C + 2)) (min (C + 2) (vlmax hw))"
  unfolding fconv2d_vec_4xC_slice_preload_3x3_def Let_def
  by (simp add: step_simps trace_simps shl3 ptr_add_def load_row_def add_ac)

lemma move_mem: "mem (fconv2d_vec_4xC_slice_move_3x3 hw C 3 s) = mem s"
  unfolding fconv2d_vec_4xC_slice_move_3x3_def Let_def by (simp add: step_simps)

lemma move_trace: "trace (fconv2d_vec_4xC_slice_move_3x3 hw C 3 s) = trace s"
  unfolding fconv2d_vec_4xC_slice_move_3x3_def Let_def by (simp add: trace_simps)

lemma move_rows:
  assumes "l < C + 2" "l < vlmax hw"
  shows "vreg (fconv2d_vec_4xC_slice_move_3x3 hw C 3 s) 8 l = vreg s 16 l"
    and "vreg (fconv2d_vec_4xC_slice_move_3x3 hw C 3 s) 10 l = vreg s 18 l"
  using assms unfolding fconv2d_vec_4xC_slice_move_3x3_def Let_def
  by (simp_all add: step_simps)

lemma move_other:
  "r \<noteq> 8 \<Longrightarrow> r \<noteq> 10 \<Longrightarrow> vreg (fconv2d_vec_4xC_slice_move_3x3 hw C 3 s) r = vreg s r"
  unfolding fconv2d_vec_4xC_slice_move_3x3_def Let_def
  by (simp add: step_simps)

section \<open>The part before the loop\<close>

lemma first_eq:
  "fconv2d_3x3_first hw ob i f C 3 s =
     (let s1 = fconv2d_vec_4xC_slice_move_3x3 hw C 3 (first_block hw ob i f C 3 s)
      in ((mem s1 f, mem s1 (ptr_add f 3), mem s1 (ptr_add f 6)),
          ptr_add i (6 * (C + 2)),
          snd (fld (ptr_add f 6) (snd (fld (ptr_add f 3) (snd (fld f s1)))))))"
  unfolding fconv2d_3x3_first_def first_block_def Let_def case_prod_beta
  by (simp add: mem_simps shl3 ptr_add_def block_size_o_def add_ac)

section \<open>Congruences of the accumulation\<close>

lemma mac_chain_cong:
  assumes "\<And>i j. i < 3 \<Longrightarrow> j < 3 \<Longrightarrow> coef i j = coef' i j"
    and "\<And>i j. i < 3 \<Longrightarrow> j < 3 \<Longrightarrow> elem i j = elem' i j"
  shows "mac_chain hw coef elem = mac_chain hw coef' elem'"
  unfolding mac_chain_def taps_eq using assms by simp

lemma tap_cong:
  assumes "\<And>l. l < vlmax hw \<Longrightarrow> l < C + 2 \<Longrightarrow> row l = row' l" "c < C" "j < 3"
  shows "tap hw row j c = tap hw row' j c"
  unfolding tap_def using assms by simp

lemma tap_full: "c + 2 < vlmax hw \<Longrightarrow> j < 3 \<Longrightarrow> tap hw row j c = row (c + j)"
  by (simp add: tap_def)

lemma kernel_elem_conv_sum:
  "c + 2 < vlmax hw \<Longrightarrow> kernel_elem hw flt inp r c = conv_sum hw flt inp r c"
  unfolding kernel_elem_def conv_sum_def
  by (rule mac_chain_cong) (simp_all add: tap_full)

lemma block_elem:
  assumes coef: "\<And>i j. i < 3 \<Longrightarrow> j < 3 \<Longrightarrow> coef i j = flt i j"
    and rows: "\<And>n l. n < 6 \<Longrightarrow> l < vlmax hw \<Longrightarrow> l < C + 2 \<Longrightarrow> W n l = inp (r0 + n) l"
    and q: "q < 4" and c: "c < C"
  shows "mac_chain hw coef (\<lambda>n j. tap hw (W (q + n)) j c) = kernel_elem hw flt inp (r0 + q) c"
  unfolding kernel_elem_def
proof (rule mac_chain_cong)
  fix n j :: nat
  assume n: "n < 3" and j: "j < 3"
  show "coef n j = flt n j" by (rule coef [OF n j])
  have "tap hw (W (q + n)) j c = tap hw (inp (r0 + (q + n))) j c"
  proof (rule tap_cong [OF _ c j])
    fix l assume "l < vlmax hw" "l < C + 2"
    with q n show "W (q + n) l = inp (r0 + (q + n)) l" by (intro rows) simp_all
  qed
  then show "tap hw (W (q + n)) j c = tap hw (inp (r0 + q + n)) j c"
    by (simp add: add.assoc)
qed

section \<open>The buffers do not overlap\<close>

lemma cell_lt: "r < R \<Longrightarrow> c < C \<Longrightarrow> r * C + c < R * (C::nat)"
proof -
  assume r: "r < R" and c: "c < C"
  have "r * C + c < Suc r * C" using c by simp
  also have "\<dots> \<le> R * C" using r by (intro mult_le_mono1) simp
  finally show ?thesis .
qed

lemma input_disjoint:
  assumes "valid_call ob i f R C" "r0 < R + 2" "l < C + 2" "n \<le> R"
  shows "ptr_add i (r0 * (C + 2) + l) < ob \<or> ptr_add ob (n * C) \<le> ptr_add i (r0 * (C + 2) + l)"
proof -
  have idx: "r0 * (C + 2) + l < (R + 2) * (C + 2)" by (rule cell_lt [OF assms(2,3)])
  have nc: "n * C \<le> R * C" using assms(4) by (rule mult_le_mono1)
  from assms(1) consider "ob + 8 * (R * C) \<le> i" | "i + 8 * ((R + 2) * (C + 2)) \<le> ob"
    by (auto simp: valid_call_def ptr_add_def)
  then show ?thesis
  proof cases
    case 1
    then show ?thesis unfolding ptr_add_def using nc by linarith
  next
    case 2
    have "i + 8 * (r0 * (C + 2) + l) < i + 8 * ((R + 2) * (C + 2))"
      using idx by simp
    also note 2
    finally show ?thesis unfolding ptr_add_def by (rule disjI1)
  qed
qed

lemma filter_disjoint:
  assumes "valid_call ob i f R C" "k < 9" "n \<le> R"
  shows "ptr_add f k < ob \<or> ptr_add ob (n * C) \<le> ptr_add f k"
proof -
  have nc: "n * C \<le> R * C" using assms(3) by (rule mult_le_mono1)
  from assms(1) consider "ob + 8 * (R * C) \<le> f" | "f + 72 \<le> ob"
    by (auto simp: valid_call_def ptr_add_def)
  then show ?thesis
  proof cases
    case 1
    then show ?thesis unfolding ptr_add_def using nc by linarith
  next
    case 2
    then show ?thesis unfolding ptr_add_def using assms(2) by linarith
  qed
qed

lemma filter_kept:
  assumes "valid_call ob i f R C" "n \<le> R"
    and "\<And>a. a < ob \<or> ptr_add ob (n * C) \<le> a \<Longrightarrow> m a = m0 a"
    and "x < 3" "y < 3"
  shows "filter_at m f x y = filter_at m0 f x y"
proof -
  have "3 * x + y < 9" using assms(4,5) by simp
  from filter_disjoint [OF assms(1) this assms(2)] show ?thesis
    unfolding filter_at_def by (rule assms(3))
qed

lemma input_kept:
  assumes "valid_call ob i f R C" "n \<le> R"
    and "\<And>a. a < ob \<or> ptr_add ob (n * C) \<le> a \<Longrightarrow> m a = m0 a"
    and "r0 < R + 2" "l < C + 2"
  shows "input_at m i C r0 l = input_at m0 i C r0 l"
  unfolding input_at_def
  by (rule assms(3)) (rule input_disjoint [OF assms(1,4,5,2)])

section \<open>The invariant\<close>

lemma win_rows:
  assumes r8: "\<And>l. l < vlmax hw \<Longrightarrow> l < C + 2 \<Longrightarrow> vreg s va l = inp r0 l"
    and r10: "\<And>l. l < vlmax hw \<Longrightarrow> l < C + 2 \<Longrightarrow> vreg s vb l = inp (r0 + 1) l"
    and rm: "\<And>k l. k < 4 \<Longrightarrow> l < C + 2 \<Longrightarrow>
               mem s (ptr_add i'' (k * (C + 2) + l)) = inp (r0 + 2 + k) l"
    and n: "n < 6" and l: "l < vlmax hw" "l < C + 2"
  shows "win s va vb i'' C n l = inp (r0 + n) l"
proof -
  consider "n = 0" | "n = 1" | "2 \<le> n" by linarith
  then show ?thesis
  proof cases
    case 1
    then show ?thesis using r8 [OF l] by (simp add: win_def)
  next
    case 2
    then show ?thesis using r10 [OF l] by (simp add: win_def)
  next
    case 3
    define k where "k = n - 2"
    have k: "n = k + 2" "k < 4" using 3 n by (simp_all add: k_def)
    show ?thesis using rm [OF k(2) l(2)] 3 unfolding k(1) by (simp add: win_def add_ac)
  qed
qed

lemma blocks_doneD:
  assumes "blocks_done hw ob i f C m0 b (i'', s)"
  shows "i'' = ptr_add i ((4 * b + 2) * (C + 2))"
    and "a < ob \<or> ptr_add ob (4 * b * C) \<le> a \<Longrightarrow> mem s a = m0 a"
    and "r < 4 * b \<Longrightarrow> c < C \<Longrightarrow> c < vlmax hw \<Longrightarrow>
           mem s (output_addr ob C r c) = kernel_elem hw (filter_at m0 f) (input_at m0 i C) r c"
    and "l < C + 2 \<Longrightarrow> l < vlmax hw \<Longrightarrow> vreg s 16 l = input_at m0 i C (4 * b) l"
    and "l < C + 2 \<Longrightarrow> l < vlmax hw \<Longrightarrow> vreg s 18 l = input_at m0 i C (4 * b + 1) l"
  using assms unfolding blocks_done_def fst_conv snd_conv by blast+

lemma valid_call_4: "valid_call ob i f R C \<Longrightarrow> 4 \<le> R"
  by (auto simp: valid_call_def dest: dvd_imp_le)

lemma first_done:
  assumes valid: "valid_call ob i f R C"
  shows "blocks_done hw ob i f C (mem s) 1 (snd (fconv2d_3x3_first hw ob i f C 3 s))"
    and "fst (fconv2d_3x3_first hw ob i f C 3 s) =
           (filter_at (mem s) f 0 0, filter_at (mem s) f 1 0, filter_at (mem s) f 2 0)"
proof -
  let ?p = "fconv2d_vec_4xC_slice_preload_3x3 hw i C 3 s"
  let ?i2 = "ptr_add i (2 * (C + 2))"
  let ?b = "first_block hw ob i f C 3 s"
  let ?m = "fconv2d_vec_4xC_slice_move_3x3 hw C 3 ?b"
  let ?e = "snd (fld (ptr_add f 6) (snd (fld (ptr_add f 3) (snd (fld f ?m)))))"
  have R4: "4 \<le> R" by (rule valid_call_4 [OF valid])
  have fb: "?b = fconv2d_vec_4xC_3x3 hw ob ?i2 f C 3 ?p" by (simp add: first_block_def)
  have snd_first: "snd (fconv2d_3x3_first hw ob i f C 3 s) = (ptr_add i (6 * (C + 2)), ?e)"
    by (simp add: first_eq Let_def)
  have mem_e: "mem ?e = mem ?b" by (simp add: mem_simps move_mem)
  have vreg_e: "vreg ?e = vreg ?m" by (simp add: vreg_other)
  have frame: "mem ?b a = mem s a" if "a < ob \<or> ptr_add ob (4 * C) \<le> a" for a
    unfolding fb using that by (simp add: helper_frame preload_mem)
  have rows: "win ?p 8 10 ?i2 C n l = input_at (mem s) i C (0 + n) l"
    if "n < 6" "l < vlmax hw" "l < C + 2" for n l
  proof (rule win_rows [OF _ _ _ that])
    fix l :: nat assume l: "l < vlmax hw" "l < C + 2"
    show "vreg ?p 8 l = input_at (mem s) i C 0 l"
      using l by (simp add: preload_rows input_at_def)
    show "vreg ?p 10 l = input_at (mem s) i C (0 + 1) l"
      using l by (simp add: preload_rows input_at_def)
  next
    fix k l :: nat assume "k < 4" "l < C + 2"
    show "mem ?p (ptr_add ?i2 (k * (C + 2) + l)) = input_at (mem s) i C (0 + 2 + k) l"
      by (simp add: preload_mem input_at_def ptr_add_def algebra_simps)
  qed
  have outs: "mem ?e (output_addr ob C r c) =
                kernel_elem hw (filter_at (mem s) f) (input_at (mem s) i C) r c"
    if "r < 4" "c < C" "c < vlmax hw" for r c
  proof -
    have "mem ?e (output_addr ob C r c) = mem ?b (ptr_add ob (r * C + c))"
      by (simp only: mem_e output_addr_def)
    also have "\<dots> =
            mac_chain hw (filter_at (mem ?p) f) (\<lambda>n j. tap hw (win ?p 8 10 ?i2 C (r + n)) j c)"
      unfolding fb by (rule helper_out [OF that])
    also have "\<dots> = kernel_elem hw (filter_at (mem s) f) (input_at (mem s) i C) (0 + r) c"
    proof (rule block_elem [where ?r0.0 = 0 and C = C])
      fix x y :: nat
      show "filter_at (mem ?p) f x y = filter_at (mem s) f x y" by (simp add: preload_mem)
    next
      fix n l :: nat assume "n < 6" "l < vlmax hw" "l < C + 2"
      then show "win ?p 8 10 ?i2 C n l = input_at (mem s) i C (0 + n) l" by (rule rows)
    qed (rule that)+
    finally show ?thesis by simp
  qed
  have regs: "vreg ?e 16 l = input_at (mem s) i C 4 l \<and> vreg ?e 18 l = input_at (mem s) i C 5 l"
    if "l < C + 2" "l < vlmax hw" for l
    unfolding vreg_e using that
    by (simp add: move_other fb helper_load preload_mem input_at_def ptr_add_def algebra_simps)
  show "blocks_done hw ob i f C (mem s) 1 (snd (fconv2d_3x3_first hw ob i f C 3 s))"
    unfolding blocks_done_def snd_first
    using frame outs regs by (simp add: mem_e)
  have kept: "filter_at (mem ?m) f x y = filter_at (mem s) f x y" if "x < 3" "y < 3" for x y
  proof (rule filter_kept [OF valid R4 _ that])
    fix a assume "a < ob \<or> ptr_add ob (4 * C) \<le> a"
    then show "mem ?m a = mem s a" by (simp add: move_mem frame)
  qed
  have "fst (fconv2d_3x3_first hw ob i f C 3 s) =
          (filter_at (mem ?m) f 0 0, filter_at (mem ?m) f 1 0, filter_at (mem ?m) f 2 0)"
    by (simp add: first_eq Let_def filter_at_def ptr_add_def)
  then show "fst (fconv2d_3x3_first hw ob i f C 3 s) =
           (filter_at (mem s) f 0 0, filter_at (mem s) f 1 0, filter_at (mem s) f 2 0)"
    by (simp add: kept)
qed

lemma body_done:
  assumes inv: "blocks_done hw ob i f C m0 b st"
    and valid: "valid_call ob i f R C" and le: "4 * Suc b \<le> R"
    and t: "t0 = filter_at m0 f 0 0" "t1 = filter_at m0 f 1 0" "t2 = filter_at m0 f 2 0"
  shows "blocks_done hw ob i f C m0 (Suc b) (fconv2d_3x3_body hw ob i f C 3 t0 t1 t2 (4 * b) st)"
proof -
  obtain i'' s where st: "st = (i'', s)" by (cases st)
  let ?st' = "fconv2d_3x3_body hw ob i f C 3 t0 t1 t2 (4 * b) (i'', s)"
  let ?s' = "snd ?st'"
  let ?ob = "ptr_add ob (4 * b * C)"
  have ptr: "i'' = ptr_add i ((4 * b + 2) * (C + 2))"
    and frame0: "\<And>a. a < ob \<or> ?ob \<le> a \<Longrightarrow> mem s a = m0 a"
    and outs0: "\<And>r c. r < 4 * b \<Longrightarrow> c < C \<Longrightarrow> c < vlmax hw \<Longrightarrow>
        mem s (output_addr ob C r c) = kernel_elem hw (filter_at m0 f) (input_at m0 i C) r c"
    and regs0: "\<And>l. l < C + 2 \<Longrightarrow> l < vlmax hw \<Longrightarrow>
        vreg s 16 l = input_at m0 i C (4 * b) l \<and> vreg s 18 l = input_at m0 i C (4 * b + 1) l"
    using inv unfolding blocks_done_def st fst_conv snd_conv by blast+
  have b4: "4 * b \<le> R" using le by simp
  have inp: "input_at (mem s) i C r l = input_at m0 i C r l" if "r < R + 2" "l < C + 2" for r l
    by (rule input_kept [OF valid b4 frame0 that])
  have cell: "mem s (ptr_add i'' (k * (C + 2) + l)) = input_at m0 i C (4 * b + 2 + k) l"
    if "k < 4" "l < C + 2" for k l
  proof -
    have "mem s (ptr_add i'' (k * (C + 2) + l)) = input_at (mem s) i C (4 * b + 2 + k) l"
      by (simp add: ptr input_at_def ptr_add_def algebra_simps)
    also have "\<dots> = input_at m0 i C (4 * b + 2 + k) l"
      using that le by (intro inp) simp_all
    finally show ?thesis .
  qed
  have rows: "win s 16 18 i'' C n l = input_at m0 i C (4 * b + n) l"
    if "n < 6" "l < vlmax hw" "l < C + 2" for n l
  proof (rule win_rows [OF _ _ _ that])
    fix l :: nat assume l: "l < vlmax hw" "l < C + 2"
    show "vreg s 16 l = input_at m0 i C (4 * b) l" using regs0 l by simp
    show "vreg s 18 l = input_at m0 i C (4 * b + 1) l" using regs0 l by simp
  next
    fix k l :: nat assume "k < 4" "l < C + 2"
    then show "mem s (ptr_add i'' (k * (C + 2) + l)) = input_at m0 i C (4 * b + 2 + k) l"
      by (rule cell)
  qed
  have coef: "coef0 t0 t1 t2 (mem s) f x y = filter_at m0 f x y" if "x < 3" "y < 3" for x y
  proof (cases "y = 0")
    case True
    from that(1) consider "x = 0" | "x = 1" | "x = 2" by linarith
    then show ?thesis using True t by cases (simp_all add: coef0_def)
  next
    case False
    then have "coef0 t0 t1 t2 (mem s) f x y = filter_at (mem s) f x y" by (simp add: coef0_def)
    also have "\<dots> = filter_at m0 f x y" by (rule filter_kept [OF valid b4 frame0 that])
    finally show ?thesis .
  qed
  have frame: "mem ?s' a = m0 a" if "a < ob \<or> ptr_add ob (4 * Suc b * C) \<le> a" for a
  proof -
    have 1: "a < ?ob \<or> ptr_add ?ob (4 * C) \<le> a"
      using that by (auto simp: ptr_add_def algebra_simps)
    have 2: "a < ob \<or> ?ob \<le> a"
      using that by (auto simp: ptr_add_def algebra_simps)
    have "mem ?s' a = mem s a" using 1 by (simp add: body_frame)
    then show ?thesis using frame0 [OF 2] by simp
  qed
  have outs: "mem ?s' (output_addr ob C r c) =
                kernel_elem hw (filter_at m0 f) (input_at m0 i C) r c"
    if "r < 4 * Suc b" "c < C" "c < vlmax hw" for r c
  proof (cases "r < 4 * b")
    case True
    have "r * C + c < 4 * b * C" by (rule cell_lt [OF True that(2)])
    then have "output_addr ob C r c < ?ob" by (simp add: output_addr_def ptr_add_def)
    then have "mem ?s' (output_addr ob C r c) = mem s (output_addr ob C r c)"
      by (simp add: body_frame)
    then show ?thesis using outs0 [OF True that(2,3)] by simp
  next
    case False
    define q where "q = r - 4 * b"
    have q: "r = 4 * b + q" "q < 4" using False that(1) by (simp_all add: q_def)
    have "output_addr ob C r c = ptr_add ?ob (q * C + c)"
      by (simp add: q(1) output_addr_def ptr_add_def algebra_simps)
    then have "mem ?s' (output_addr ob C r c) =
        mac_chain hw (coef0 t0 t1 t2 (mem s) f) (\<lambda>n j. tap hw (win s 16 18 i'' C (q + n)) j c)"
      by (simp add: body_out [OF q(2) that(2,3)])
    also have "\<dots> = kernel_elem hw (filter_at m0 f) (input_at m0 i C) (4 * b + q) c"
    proof (rule block_elem [where ?r0.0 = "4 * b" and C = C])
      fix x y :: nat assume "x < 3" "y < 3"
      then show "coef0 t0 t1 t2 (mem s) f x y = filter_at m0 f x y" by (rule coef)
    next
      fix n l :: nat assume "n < 6" "l < vlmax hw" "l < C + 2"
      then show "win s 16 18 i'' C n l = input_at m0 i C (4 * b + n) l" by (rule rows)
    qed (rule q(2), rule that(2))
    finally show ?thesis by (simp add: q(1))
  qed
  have regs: "vreg ?s' 16 l = input_at m0 i C (4 * Suc b) l \<and>
              vreg ?s' 18 l = input_at m0 i C (4 * Suc b + 1) l"
    if "l < C + 2" "l < vlmax hw" for l
  proof -
    have c2: "mem s (ptr_add i'' (2 * (C + 2) + l)) = input_at m0 i C (4 * b + 2 + 2) l"
      using that(1) by (intro cell) simp_all
    have c3: "mem s (ptr_add i'' (3 * (C + 2) + l)) = input_at m0 i C (4 * b + 2 + 3) l"
      using that(1) by (intro cell) simp_all
    have e: "4 * b + 2 + 2 = 4 * Suc b" "4 * b + 2 + 3 = 4 * Suc b + 1" by simp_all
    show ?thesis unfolding body_load(3,4) [OF that] c2 c3 e by (rule conjI) (rule refl)+
  qed
  have "fst ?st' = ptr_add i ((4 * Suc b + 2) * (C + 2))"
    by (simp add: body_ptr add_ac)
  then show ?thesis
    unfolding st blocks_done_def using frame outs regs by simp
qed

section \<open>The loop\<close>

lemma loop_rounds:
  assumes "k \<le> (R + 3) div 4 - 1"
  shows "fconv2d_3x3_loop hw ob i f R C F t0 t1 t2 (block_size_o * Suc k)
           (rounds hw ob i f C F t0 t1 t2 k st) =
         (block_size_o * Suc ((R + 3) div 4 - 1),
          rounds hw ob i f C F t0 t1 t2 ((R + 3) div 4 - 1) st)"
  using assms
proof (induction "(R + 3) div 4 - 1 - k" arbitrary: k)
  case 0
  then have k: "k = (R + 3) div 4 - 1" by simp
  have "\<not> block_size_o * Suc k < R" unfolding k block_size_o_def by arith
  then show ?case
    by (subst fconv2d_3x3_loop.simps) (simp add: k)
next
  case (Suc d)
  then have lt: "k < (R + 3) div 4 - 1" by simp
  then have "block_size_o * Suc k < R" unfolding block_size_o_def by arith
  then have "fconv2d_3x3_loop hw ob i f R C F t0 t1 t2 (block_size_o * Suc k)
               (rounds hw ob i f C F t0 t1 t2 k st) =
             fconv2d_3x3_loop hw ob i f R C F t0 t1 t2 (block_size_o * Suc (Suc k))
               (rounds hw ob i f C F t0 t1 t2 (Suc k) st)"
    by (subst fconv2d_3x3_loop.simps) (simp add: block_size_o_def)
  also have "\<dots> = (block_size_o * Suc ((R + 3) div 4 - 1),
                     rounds hw ob i f C F t0 t1 t2 ((R + 3) div 4 - 1) st)"
    using Suc(2) lt by (intro Suc(1)) simp_all
  finally show ?case .
qed

lemma fconv2d_3x3_rounds:
  "fconv2d_3x3 hw ob i f R C F s =
     (let ((t0, t1, t2), st) = fconv2d_3x3_first hw ob i f C F s
      in snd (rounds hw ob i f C F t0 t1 t2 ((R + 3) div 4 - 1) st))"
  unfolding fconv2d_3x3_def Let_def case_prod_beta
  using loop_rounds [of 0 R hw ob i f C F] by simp

lemma rounds_done:
  assumes valid: "valid_call ob i f R C" and le: "4 * Suc n \<le> R"
    and st: "blocks_done hw ob i f C m0 1 st"
    and t: "t0 = filter_at m0 f 0 0" "t1 = filter_at m0 f 1 0" "t2 = filter_at m0 f 2 0"
  shows "blocks_done hw ob i f C m0 (Suc n) (rounds hw ob i f C 3 t0 t1 t2 n st)"
  using le
proof (induction n)
  case 0
  show ?case using st by simp
next
  case (Suc n)
  then have "blocks_done hw ob i f C m0 (Suc n) (rounds hw ob i f C 3 t0 t1 t2 n st)" by simp
  from body_done [OF this valid Suc.prems t] show ?case
    by (simp add: block_size_o_def)
qed

lemma valid_call_rounds: "valid_call ob i f R C \<Longrightarrow> R = 4 * Suc ((R + 3) div 4 - 1)"
  unfolding valid_call_def by (elim conjE dvdE) simp

lemma fconv2d_3x3_done:
  assumes valid: "valid_call ob i f R C"
  shows "\<exists>i''. blocks_done hw ob i f C (mem s) (R div 4) (i'', fconv2d_3x3 hw ob i f R C 3 s)"
proof -
  let ?n = "(R + 3) div 4 - 1"
  obtain t0 t1 t2 st where first: "fconv2d_3x3_first hw ob i f C 3 s = ((t0, t1, t2), st)"
    by (metis prod.exhaust)
  from first_done [OF valid, of hw s]
  have st: "blocks_done hw ob i f C (mem s) 1 st"
    and t: "t0 = filter_at (mem s) f 0 0" "t1 = filter_at (mem s) f 1 0" "t2 = filter_at (mem s) f 2 0"
    by (simp_all add: first)
  have R: "R = 4 * Suc ?n" by (rule valid_call_rounds [OF valid])
  then have le: "4 * Suc ?n \<le> R" by simp
  have "blocks_done hw ob i f C (mem s) (Suc ?n) (rounds hw ob i f C 3 t0 t1 t2 ?n st)"
    by (rule rounds_done [OF valid le st t])
  moreover have "Suc ?n = R div 4" using R by simp
  moreover have "fconv2d_3x3 hw ob i f R C 3 s = snd (rounds hw ob i f C 3 t0 t1 t2 ?n st)"
    by (simp add: fconv2d_3x3_rounds first)
  ultimately show ?thesis
    by (metis prod.collapse)
qed

lemma fconv2d_3x3_elem:
  assumes "valid_call ob i f R C" "r < R" "c < C" "c < vlmax hw"
  shows "mem (fconv2d_3x3 hw ob i f R C 3 s) (output_addr ob C r c) =
           kernel_elem hw (filter_at (mem s) f) (input_at (mem s) i C) r c"
proof -
  from fconv2d_3x3_done [OF assms(1)] obtain i''
    where inv: "blocks_done hw ob i f C (mem s) (R div 4) (i'', fconv2d_3x3 hw ob i f R C 3 s)" ..
  have R: "4 * (R div 4) = R" using assms(1) by (simp add: valid_call_def)
  show ?thesis by (rule blocks_doneD(3) [OF inv _ assms(3,4)]) (simp add: R assms(2))
qed

lemma fconv2d_3x3_frame:
  assumes "valid_call ob i f R C" "a < ob \<or> ptr_add ob (R * C) \<le> a"
  shows "mem (fconv2d_3x3 hw ob i f R C 3 s) a = mem s a"
proof -
  from fconv2d_3x3_done [OF assms(1)] obtain i''
    where inv: "blocks_done hw ob i f C (mem s) (R div 4) (i'', fconv2d_3x3 hw ob i f R C 3 s)" ..
  have R: "4 * (R div 4) = R" using assms(1) by (simp add: valid_call_def)
  show ?thesis by (rule blocks_doneD(2) [OF inv]) (simp only: R assms(2))
qed

section \<open>The access trace\<close>

lemma stores_of_append: "stores_of (xs @ ys) = stores_of xs @ stores_of ys"
  by (induction xs rule: stores_of.induct) simp_all

lemma stores_of_load_row: "stores_of (load_row a n) = []"
  unfolding load_row_def by (induction n) (simp_all add: stores_of_append)

lemma stores_of_store_row: "stores_of (store_row a n) = map (ptr_add a) [0..<n]"
  unfolding store_row_def by (induction n) (simp_all add: stores_of_append)

lemma in_buf_ptr: "k < n \<Longrightarrow> in_buf base n (ptr_add base k)"
  by (simp add: in_buf_def ptr_add_def)

lemma load_row_ok:
  assumes "r < R + 2" "n \<le> C + 2"
  shows "list_all (access_ok ob i f R C) (load_row (ptr_add i (r * (C + 2))) n)"
proof -
  have "in_buf i ((R + 2) * (C + 2)) (ptr_add (ptr_add i (r * (C + 2))) l)" if "l < n" for l
  proof -
    have "l < C + 2" using that assms(2) by simp
    then have "r * (C + 2) + l < (R + 2) * (C + 2)" by (rule cell_lt [OF assms(1)])
    then have "in_buf i ((R + 2) * (C + 2)) (ptr_add i (r * (C + 2) + l))" by (rule in_buf_ptr)
    then show ?thesis by (simp add: ptr_add_def algebra_simps)
  qed
  then show ?thesis by (simp add: load_row_def list_all_iff)
qed

lemma store_row_ok:
  assumes "r < R" "n \<le> C"
  shows "list_all (access_ok ob i f R C) (store_row (ptr_add ob (r * C)) n)"
proof -
  have "in_buf ob (R * C) (ptr_add (ptr_add ob (r * C)) l)" if "l < n" for l
  proof -
    have "l < C" using that assms(2) by simp
    then have "r * C + l < R * C" by (rule cell_lt [OF assms(1)])
    then have "in_buf ob (R * C) (ptr_add ob (r * C + l))" by (rule in_buf_ptr)
    then show ?thesis by (simp add: ptr_add_def algebra_simps)
  qed
  then show ?thesis by (simp add: store_row_def list_all_iff)
qed

lemma fload_ok: "k < 9 \<Longrightarrow> access_ok ob i f R C (FLoad (ptr_add f k))"
  by (simp add: in_buf_ptr)

text \<open>The stores of four consecutive rows, as one block leaves them in the trace.\<close>

lemma upt_block: "[4 * b..<4 * Suc b] = [4 * b, 4 * b + 1, 4 * b + 2, 4 * b + 3]"
  by (simp add: upt_conv_Cons)

lemma rows_Suc:
  "concat (map g [0..<4 * Suc b]) =
     concat (map g [0..<4 * b]) @ g (4 * b) @ g (4 * b + 1) @ g (4 * b + 2) @ g (4 * b + 3)"
proof -
  have "[0..<4 * Suc b] = [0..<4 * b] @ [4 * b..<4 * Suc b]"
    by (metis le_add2 mult_Suc_right upt_add_eq_append zero_le add.commute)
  then have "concat (map g [0..<4 * Suc b]) =
               concat (map g [0..<4 * b]) @ concat (map g [4 * b..<4 * Suc b])"
    by (simp only: map_append concat_append)
  then show ?thesis by (simp only: upt_block) simp
qed

lemma ptr_add_add: "ptr_add (ptr_add p m) n = ptr_add p (m + n)"
  by (simp add: ptr_add_def)

lemma stores_of_row: "stores_of (store_row (ptr_add ob (r * C)) n) = row_cells ob C n r"
  by (simp add: stores_of_store_row row_cells_def output_addr_def ptr_add_add)

lemma block_accesses_ok:
  assumes R: "r0 + 4 \<le> R"
  shows "list_all (access_ok ob i f R C)
     (load_row (ptr_add i ((r0 + 2) * (C + 2))) (min (C + 2) (vlmax hw))
      @ load_row (ptr_add i ((r0 + 3) * (C + 2))) (min (C + 2) (vlmax hw))
      @ load_row (ptr_add i ((r0 + 4) * (C + 2))) (min (C + 2) (vlmax hw))
      @ load_row (ptr_add i ((r0 + 5) * (C + 2))) (min (C + 2) (vlmax hw))
      @ [FLoad (ptr_add f 1), FLoad (ptr_add f 4), FLoad (ptr_add f 7),
         FLoad (ptr_add f 2), FLoad (ptr_add f 5), FLoad (ptr_add f 8)]
      @ store_row (ptr_add ob (r0 * C)) (min C (vlmax hw))
      @ store_row (ptr_add ob ((r0 + 1) * C)) (min C (vlmax hw))
      @ store_row (ptr_add ob ((r0 + 2) * C)) (min C (vlmax hw))
      @ store_row (ptr_add ob ((r0 + 3) * C)) (min C (vlmax hw)))"
  using R by (simp only: list_all_append list.pred_inject load_row_ok store_row_ok fload_ok)

lemma block_stores:
  "stores_of
     (load_row a0 m @ load_row a1 m @ load_row a2 m @ load_row a3 m
      @ [FLoad f1, FLoad f4, FLoad f7, FLoad f2, FLoad f5, FLoad f8]
      @ store_row (ptr_add ob (r0 * C)) n
      @ store_row (ptr_add ob ((r0 + 1) * C)) n
      @ store_row (ptr_add ob ((r0 + 2) * C)) n
      @ store_row (ptr_add ob ((r0 + 3) * C)) n) =
   row_cells ob C n r0 @ row_cells ob C n (r0 + 1) @ row_cells ob C n (r0 + 2)
   @ row_cells ob C n (r0 + 3)"
  by (simp only: stores_of_append stores_of_load_row stores_of_row stores_of.simps
        append_Nil append_Cons)

lemma body_accesses:
  assumes "4 * Suc b \<le> R" "i'' = ptr_add i ((4 * b + 2) * (C + 2))"
  obtains T where
    "trace (snd (fconv2d_3x3_body hw ob i f C 3 t0 t1 t2 (4 * b) (i'', s))) = trace s @ T"
    "stores_of T = row_cells ob C (min C (vlmax hw)) (4 * b)
        @ row_cells ob C (min C (vlmax hw)) (4 * b + 1)
        @ row_cells ob C (min C (vlmax hw)) (4 * b + 2)
        @ row_cells ob C (min C (vlmax hw)) (4 * b + 3)"
    "list_all (access_ok ob i f R C) T"
proof -
  let ?m = "min (C + 2) (vlmax hw)" and ?n = "min C (vlmax hw)"
  let ?T = "load_row (ptr_add i ((4 * b + 2) * (C + 2))) ?m
      @ load_row (ptr_add i ((4 * b + 3) * (C + 2))) ?m
      @ load_row (ptr_add i ((4 * b + 4) * (C + 2))) ?m
      @ load_row (ptr_add i ((4 * b + 5) * (C + 2))) ?m
      @ [FLoad (ptr_add f 1), FLoad (ptr_add f 4), FLoad (ptr_add f 7),
         FLoad (ptr_add f 2), FLoad (ptr_add f 5), FLoad (ptr_add f 8)]
      @ store_row (ptr_add ob (4 * b * C)) ?n
      @ store_row (ptr_add ob ((4 * b + 1) * C)) ?n
      @ store_row (ptr_add ob ((4 * b + 2) * C)) ?n
      @ store_row (ptr_add ob ((4 * b + 3) * C)) ?n"
  have e: "ptr_add i'' (C + 2) = ptr_add i ((4 * b + 3) * (C + 2))"
    "ptr_add i'' (2 * (C + 2)) = ptr_add i ((4 * b + 4) * (C + 2))"
    "ptr_add i'' (3 * (C + 2)) = ptr_add i ((4 * b + 5) * (C + 2))"
    "ptr_add ob (4 * b * C + C) = ptr_add ob ((4 * b + 1) * C)"
    "ptr_add ob (4 * b * C + 2 * C) = ptr_add ob ((4 * b + 2) * C)"
    "ptr_add ob (4 * b * C + 3 * C) = ptr_add ob ((4 * b + 3) * C)"
    by (simp_all add: assms(2) ptr_add_def algebra_simps)
  have 1: "trace (snd (fconv2d_3x3_body hw ob i f C 3 t0 t1 t2 (4 * b) (i'', s))) = trace s @ ?T"
    unfolding body_trace e by (simp only: assms(2) append_assoc)
  have 2: "stores_of ?T = row_cells ob C ?n (4 * b) @ row_cells ob C ?n (4 * b + 1)
        @ row_cells ob C ?n (4 * b + 2) @ row_cells ob C ?n (4 * b + 3)"
    by (rule block_stores)
  have 3: "list_all (access_ok ob i f R C) ?T"
    using assms(1) by (intro block_accesses_ok) simp
  from 1 2 3 show ?thesis by (rule that)
qed

lemma rounds_ptr:
  assumes "fst st = ptr_add i (6 * (C + 2))"
  shows "fst (rounds hw ob i f C 3 t0 t1 t2 n st) = ptr_add i ((4 * Suc n + 2) * (C + 2))"
proof (cases n)
  case 0
  then show ?thesis using assms by simp
next
  case (Suc k)
  have "fst (fconv2d_3x3_body hw ob i f C 3 t0 t1 t2 r st') = ptr_add i ((r + 4 + 2) * (C + 2))"
    for r st' by (cases st') (simp add: body_ptr)
  then show ?thesis by (simp add: Suc block_size_o_def add_ac)
qed

lemma rounds_accesses:
  assumes "4 * Suc n \<le> R" "fst st = ptr_add i (6 * (C + 2))"
  shows "\<exists>T. trace (snd (rounds hw ob i f C 3 t0 t1 t2 n st)) = trace (snd st) @ T \<and>
             stores_of T = concat (map (row_cells ob C (min C (vlmax hw))) [4..<4 * Suc n]) \<and>
             list_all (access_ok ob i f R C) T"
  using assms(1)
proof (induction n)
  case 0
  show ?case by simp
next
  case (Suc n)
  let ?st = "rounds hw ob i f C 3 t0 t1 t2 n st"
  from Suc obtain T where T: "trace (snd ?st) = trace (snd st) @ T"
    "stores_of T = concat (map (row_cells ob C (min C (vlmax hw))) [4..<4 * Suc n])"
    "list_all (access_ok ob i f R C) T"
    by auto
  have ptr: "fst ?st = ptr_add i ((4 * Suc n + 2) * (C + 2))"
    by (rule rounds_ptr [OF assms(2)])
  obtain U where U:
    "trace (snd (fconv2d_3x3_body hw ob i f C 3 t0 t1 t2 (4 * Suc n) (fst ?st, snd ?st))) =
       trace (snd ?st) @ U"
    "stores_of U = row_cells ob C (min C (vlmax hw)) (4 * Suc n)
        @ row_cells ob C (min C (vlmax hw)) (4 * Suc n + 1)
        @ row_cells ob C (min C (vlmax hw)) (4 * Suc n + 2)
        @ row_cells ob C (min C (vlmax hw)) (4 * Suc n + 3)"
    "list_all (access_ok ob i f R C) U"
    by (rule body_accesses [OF Suc.prems ptr])
  have "[4..<4 * Suc (Suc n)] = [4..<4 * Suc n] @ [4 * Suc n..<4 * Suc (Suc n)]"
    using upt_add_eq_append [of 4 "4 * Suc n" 4] by (simp add: add.commute)
  then have "concat (map (row_cells ob C (min C (vlmax hw))) [4..<4 * Suc (Suc n)]) =
               stores_of T @ stores_of U"
    unfolding T(2) U(2) by (simp only: upt_block map_append concat_append) simp
  then have "stores_of (T @ U) =
               concat (map (row_cells ob C (min C (vlmax hw))) [4..<4 * Suc (Suc n)])"
    by (simp add: stores_of_append)
  moreover have "trace (snd (rounds hw ob i f C 3 t0 t1 t2 (Suc n) st)) = trace (snd st) @ T @ U"
    using U(1) T(1) by (simp add: block_size_o_def)
  moreover have "list_all (access_ok ob i f R C) (T @ U)" using T(3) U(3) by simp
  ultimately show ?case by blast
qed

lemma rows4: "concat (map g [0..<4]) = g 0 @ g (0 + 1) @ g (0 + 2) @ g (0 + 3)"
  using rows_Suc [of g 0] by simp

lemma first_accesses:
  assumes "4 \<le> R"
  shows "\<exists>T. trace (snd (snd (fconv2d_3x3_first hw ob i f C 3 s))) = trace s @ T \<and>
             stores_of T = concat (map (row_cells ob C (min C (vlmax hw))) [0..<4]) \<and>
             list_all (access_ok ob i f R C) T"
proof -
  let ?m = "min (C + 2) (vlmax hw)" and ?n = "min C (vlmax hw)"
  let ?B = "load_row (ptr_add i ((0 + 2) * (C + 2))) ?m
      @ load_row (ptr_add i ((0 + 3) * (C + 2))) ?m
      @ load_row (ptr_add i ((0 + 4) * (C + 2))) ?m
      @ load_row (ptr_add i ((0 + 5) * (C + 2))) ?m
      @ [FLoad (ptr_add f 1), FLoad (ptr_add f 4), FLoad (ptr_add f 7),
         FLoad (ptr_add f 2), FLoad (ptr_add f 5), FLoad (ptr_add f 8)]
      @ store_row (ptr_add ob (0 * C)) ?n
      @ store_row (ptr_add ob ((0 + 1) * C)) ?n
      @ store_row (ptr_add ob ((0 + 2) * C)) ?n
      @ store_row (ptr_add ob ((0 + 3) * C)) ?n"
  let ?F = "[FLoad (ptr_add f 0), FLoad (ptr_add f 3), FLoad (ptr_add f 6)]"
  let ?P = "load_row (ptr_add i (0 * (C + 2))) ?m @ load_row (ptr_add i (1 * (C + 2))) ?m"
  let ?T = "?P @ ?F @ ?B @ ?F"
  have "trace (snd (snd (fconv2d_3x3_first hw ob i f C 3 s))) = trace s @ ?T"
    by (simp add: first_eq Let_def trace_simps move_trace first_block_def helper_trace
        preload_trace ptr_add_add) (simp add: ptr_add_def)
  moreover have "stores_of ?B = row_cells ob C ?n 0 @ row_cells ob C ?n (0 + 1)
      @ row_cells ob C ?n (0 + 2) @ row_cells ob C ?n (0 + 3)"
    by (rule block_stores)
  then have "stores_of ?T = concat (map (row_cells ob C ?n) [0..<4])"
    by (simp only: rows4 stores_of_append stores_of_load_row stores_of.simps append_Nil
          append_Nil2)
  moreover have "list_all (access_ok ob i f R C) ?T"
  proof -
    have "list_all (access_ok ob i f R C) ?B" using assms by (intro block_accesses_ok) simp
    moreover have "list_all (access_ok ob i f R C) ?P"
      by (simp only: list_all_append load_row_ok)
    moreover have "list_all (access_ok ob i f R C) ?F"
      by (simp only: list.pred_inject fload_ok)
    ultimately show ?thesis by (simp only: list_all_append)
  qed
  ultimately show ?thesis by blast
qed

lemma fconv2d_3x3_accesses:
  assumes "0 < R" "4 dvd R"
  shows "\<exists>T. trace (fconv2d_3x3 hw ob i f R C 3 s) = trace s @ T \<and>
             stores_of T = concat (map (row_cells ob C (min C (vlmax hw))) [0..<R]) \<and>
             list_all (access_ok ob i f R C) T"
proof -
  from assms obtain n where R: "R = 4 * Suc n"
    by (metis dvdE gr0_implies_Suc mult_0_right not_gr_zero)
  have n: "(R + 3) div 4 - 1 = n" by (simp add: R)
  have le: "4 * Suc n \<le> R" "4 \<le> R" by (simp_all add: R)
  obtain t0 t1 t2 st where first: "fconv2d_3x3_first hw ob i f C 3 s = ((t0, t1, t2), st)"
    by (metis prod.exhaust)
  have run: "fconv2d_3x3 hw ob i f R C 3 s = snd (rounds hw ob i f C 3 t0 t1 t2 n st)"
    unfolding fconv2d_3x3_rounds first n by simp
  have ptr: "fst st = ptr_add i (6 * (C + 2))"
    using first by (simp add: first_eq Let_def) auto
  from first_accesses [OF le(2), of hw ob i f C s] obtain T where T:
    "trace (snd st) = trace s @ T"
    "stores_of T = concat (map (row_cells ob C (min C (vlmax hw))) [0..<4])"
    "list_all (access_ok ob i f R C) T"
    by (auto simp: first)
  from rounds_accesses [OF le(1) ptr, of hw ob f t0 t1 t2] obtain U where U:
    "trace (snd (rounds hw ob i f C 3 t0 t1 t2 n st)) = trace (snd st) @ U"
    "stores_of U = concat (map (row_cells ob C (min C (vlmax hw))) [4..<4 * Suc n])"
    "list_all (access_ok ob i f R C) U"
    by auto
  have "[0..<R] = [0..<4] @ [4..<4 * Suc n]"
    unfolding R using upt_add_eq_append [of 0 4 "4 * n"] by (simp add: add.commute)
  then have "stores_of (T @ U) = concat (map (row_cells ob C (min C (vlmax hw))) [0..<R])"
    by (simp only: stores_of_append T(2) U(2) map_append concat_append)
  moreover have "trace (fconv2d_3x3 hw ob i f R C 3 s) = trace s @ T @ U"
    by (simp add: run U(1) T(1))
  moreover have "list_all (access_ok ob i f R C) (T @ U)" using T(3) U(3) by simp
  ultimately show ?thesis by blast
qed

section \<open>More on the window\<close>






lemma kernel_elem_cong:
  assumes "\<And>x y. x < 3 \<Longrightarrow> y < 3 \<Longrightarrow> flt x y = flt' x y"
    and "\<And>n l. n < 3 \<Longrightarrow> l < C + 2 \<Longrightarrow> inp (r + n) l = inp' (r + n) l"
    and "c < C"
  shows "kernel_elem hw flt inp r c = kernel_elem hw flt' inp' r c"
  unfolding kernel_elem_def
proof (rule mac_chain_cong)
  fix n j :: nat assume n: "n < 3" and j: "j < 3"
  show "flt n j = flt' n j" by (rule assms(1) [OF n j])
  show "tap hw (inp (r + n)) j c = tap hw (inp' (r + n)) j c"
    by (rule tap_cong [OF _ assms(3) j]) (rule assms(2) [OF n])
qed

lemma vf_macc_defined:
  "acc \<noteq> None \<Longrightarrow> t \<noteq> None \<Longrightarrow> x \<noteq> None \<Longrightarrow> vf_macc hw acc t x \<noteq> None"
  by auto

lemma vf_mul_defined: "x \<noteq> None \<Longrightarrow> t \<noteq> None \<Longrightarrow> vf_mul hw x t \<noteq> None"
  by auto

lemma mac_chain_defined:
  assumes "\<And>i j. i < 3 \<Longrightarrow> j < 3 \<Longrightarrow> coef i j \<noteq> None"
    and "\<And>i j. i < 3 \<Longrightarrow> j < 3 \<Longrightarrow> elem i j \<noteq> None"
  shows "mac_chain hw coef elem \<noteq> None"
  unfolding mac_chain_def taps_eq
  by (simp del: not_None_eq add: vf_macc_defined vf_mul_defined assms)

lemma tap_defined:
  "(\<And>l. l < C + 2 \<Longrightarrow> row l \<noteq> None) \<Longrightarrow> c < C \<Longrightarrow> j < 3 \<Longrightarrow> tap hw row j c \<noteq> None"
  by (simp add: tap_def)

lemma concat_rows:
  "concat (map (\<lambda>r. map (\<lambda>c. g (r * C + c)) [0..<C]) [0..<R]) = map g [0..<R * C]"
proof (induction R)
  case 0
  show ?case by simp
next
  case (Suc R)
  have "map g [0..<Suc R * C] = map g [0..<R * C] @ map g [R * C..<R * C + C]"
    using upt_add_eq_append [of 0 "R * C" C] by (simp add: add.commute)
  also have "map g [R * C..<R * C + C] = map (\<lambda>c. g (R * C + c)) [0..<C]"
    by (rule map_upt_eqI) simp_all
  finally show ?case using Suc by simp
qed

lemma row_cells_all:
  "concat (map (row_cells ob C C) [0..<R]) = map (ptr_add ob) [0..<R * C]"
  unfolding row_cells_def output_addr_def by (rule concat_rows)

lemma new_accessesI: "trace s' = trace s @ T \<Longrightarrow> new_accesses s s' = T"
  by (simp add: new_accesses_def)

lemma fconv2d_3x3_stores:
  assumes "0 < R" "4 dvd R"
  shows "stores_of (new_accesses s (fconv2d_3x3 hw ob i f R C 3 s)) =
           concat (map (row_cells ob C (min C (vlmax hw))) [0..<R])"
  using fconv2d_3x3_accesses [OF assms, of hw ob i f C s]
  by (auto simp: new_accessesI)

section \<open>The elements read by the slides\<close>

lemma slide_row_ok1: "list_all (slide_ok C) (slide_row hw v 1 (min C m))"
  by (auto simp: slide_row_def slide_ok_def slide_in_row_def list_all_iff)

lemma slide_row_ok2: "list_all (slide_ok C) (slide_row hw v 2 (min C m))"
  by (auto simp: slide_row_def slide_ok_def slide_in_row_def list_all_iff)

lemma slide_row_ok8: "list_all (slide_ok C) (slide_row hw 8 1 (min (C + 2) m))"
proof -
  have "k + 1 < C + 2 \<or> k + 1 = C + 2" if "k < C + 2" for k using that by linarith
  then show ?thesis by (auto simp: slide_row_def slide_ok_def slide_in_row_def list_all_iff)
qed

lemma block_slides_ok:
  "list_all (slide_ok C)
     (slide_row hw 8 1 (min (C + 2) (vlmax hw))
      @ slide_row hw 10 1 (min C (vlmax hw)) @ slide_row hw 12 1 (min C (vlmax hw))
      @ slide_row hw 14 1 (min C (vlmax hw)) @ slide_row hw 16 1 (min C (vlmax hw))
      @ slide_row hw 18 1 (min C (vlmax hw)) @ slide_row hw 8 2 (min C (vlmax hw))
      @ slide_row hw 10 2 (min C (vlmax hw)) @ slide_row hw 12 2 (min C (vlmax hw))
      @ slide_row hw 14 2 (min C (vlmax hw)) @ slide_row hw 16 2 (min C (vlmax hw))
      @ slide_row hw 18 2 (min C (vlmax hw)))"
  by (simp only: list_all_append slide_row_ok1 slide_row_ok2 slide_row_ok8 simp_thms)

lemma slide_row_last:
  assumes "n + imm \<le> vlmax hw" "0 < n"
  shows "(v, n - 1 + imm) \<in> set (slide_row hw v imm n)"
proof -
  have "n - 1 < n" "n - 1 + imm < vlmax hw" using assms by simp_all
  then have "n - 1 \<in> set (filter (\<lambda>k. k + imm < vlmax hw) [0..<n])" by simp
  then have "(\<lambda>k. (v, k + imm)) (n - 1) \<in>
      (\<lambda>k. (v, k + imm)) ` set (filter (\<lambda>k. k + imm < vlmax hw) [0..<n])"
    by (rule imageI)
  then show ?thesis unfolding slide_row_def by (simp only: set_map)
qed

lemma preload_slides:
  "slide_src (fconv2d_vec_4xC_slice_preload_3x3 hw i C 3 s) = slide_src s"
  unfolding fconv2d_vec_4xC_slice_preload_3x3_def Let_def by (simp add: slide_simps)

lemma move_slides: "slide_src (fconv2d_vec_4xC_slice_move_3x3 hw C 3 s) = slide_src s"
  unfolding fconv2d_vec_4xC_slice_move_3x3_def Let_def by (simp add: slide_simps)

lemma first_slides:
  "slide_src (snd (snd (fconv2d_3x3_first hw ob i f C 3 s))) =
     slide_src s @ slide_row hw 8 1 (min (C + 2) (vlmax hw))
     @ slide_row hw 10 1 (min C (vlmax hw)) @ slide_row hw 12 1 (min C (vlmax hw))
     @ slide_row hw 14 1 (min C (vlmax hw)) @ slide_row hw 16 1 (min C (vlmax hw))
     @ slide_row hw 18 1 (min C (vlmax hw)) @ slide_row hw 8 2 (min C (vlmax hw))
     @ slide_row hw 10 2 (min C (vlmax hw)) @ slide_row hw 12 2 (min C (vlmax hw))
     @ slide_row hw 14 2 (min C (vlmax hw)) @ slide_row hw 16 2 (min C (vlmax hw))
     @ slide_row hw 18 2 (min C (vlmax hw))"
  by (simp add: first_eq Let_def slide_simps move_slides first_block_def helper_slides
      preload_slides)

lemma rounds_slides:
  "\<exists>T. slide_src (snd (rounds hw ob i f C 3 t0 t1 t2 n st)) = slide_src (snd st) @ T \<and>
       list_all (slide_ok C) T"
proof (induction n)
  case 0
  show ?case by simp
next
  case (Suc n)
  let ?st = "rounds hw ob i f C 3 t0 t1 t2 n st"
  from Suc obtain T where T: "slide_src (snd ?st) = slide_src (snd st) @ T"
    "list_all (slide_ok C) T" by auto
  define U where "U = slide_row hw 8 1 (min (C + 2) (vlmax hw))
      @ slide_row hw 10 1 (min C (vlmax hw)) @ slide_row hw 12 1 (min C (vlmax hw))
      @ slide_row hw 14 1 (min C (vlmax hw)) @ slide_row hw 16 1 (min C (vlmax hw))
      @ slide_row hw 18 1 (min C (vlmax hw)) @ slide_row hw 8 2 (min C (vlmax hw))
      @ slide_row hw 10 2 (min C (vlmax hw)) @ slide_row hw 12 2 (min C (vlmax hw))
      @ slide_row hw 14 2 (min C (vlmax hw)) @ slide_row hw 16 2 (min C (vlmax hw))
      @ slide_row hw 18 2 (min C (vlmax hw))"
  have "rounds hw ob i f C 3 t0 t1 t2 (Suc n) st =
          fconv2d_3x3_body hw ob i f C 3 t0 t1 t2 (block_size_o * Suc n) (fst ?st, snd ?st)"
    by simp
  then have U: "slide_src (snd (rounds hw ob i f C 3 t0 t1 t2 (Suc n) st)) =
      slide_src (snd ?st) @ U" "list_all (slide_ok C) U"
    unfolding U_def by (simp_all only: body_slides block_slides_ok)
  have "slide_src (snd (rounds hw ob i f C 3 t0 t1 t2 (Suc n) st)) = slide_src (snd st) @ T @ U"
    by (simp only: U(1) T(1) append_assoc)
  moreover have "list_all (slide_ok C) (T @ U)" using T(2) U(2) by simp
  ultimately show ?case by blast
qed

lemma fconv2d_3x3_slides:
  "\<exists>T. slide_src (fconv2d_3x3 hw ob i f R C 3 s) =
          slide_src s @ slide_row hw 8 1 (min (C + 2) (vlmax hw)) @ T \<and>
       list_all (slide_ok C) T"
proof -
  obtain t0 t1 t2 st where first: "fconv2d_3x3_first hw ob i f C 3 s = ((t0, t1, t2), st)"
    by (metis prod.exhaust)
  have run: "fconv2d_3x3 hw ob i f R C 3 s =
      snd (rounds hw ob i f C 3 t0 t1 t2 ((R + 3) div 4 - 1) st)"
    unfolding fconv2d_3x3_rounds first by simp
  let ?B = "slide_row hw 10 1 (min C (vlmax hw)) @ slide_row hw 12 1 (min C (vlmax hw))
     @ slide_row hw 14 1 (min C (vlmax hw)) @ slide_row hw 16 1 (min C (vlmax hw))
     @ slide_row hw 18 1 (min C (vlmax hw)) @ slide_row hw 8 2 (min C (vlmax hw))
     @ slide_row hw 10 2 (min C (vlmax hw)) @ slide_row hw 12 2 (min C (vlmax hw))
     @ slide_row hw 14 2 (min C (vlmax hw)) @ slide_row hw 16 2 (min C (vlmax hw))
     @ slide_row hw 18 2 (min C (vlmax hw))"
  have st: "slide_src (snd st) = slide_src s @ slide_row hw 8 1 (min (C + 2) (vlmax hw)) @ ?B"
    using first_slides [of hw ob i f C s] by (simp add: first)
  have B: "list_all (slide_ok C) ?B"
    using block_slides_ok [of C hw] by (simp only: list_all_append)
  from rounds_slides [of hw ob i f C t0 t1 t2 "(R + 3) div 4 - 1" st] obtain U where
    U: "slide_src (snd (rounds hw ob i f C 3 t0 t1 t2 ((R + 3) div 4 - 1) st)) =
          slide_src (snd st) @ U" "list_all (slide_ok C) U" by auto
  have "slide_src (fconv2d_3x3 hw ob i f R C 3 s) =
          slide_src s @ slide_row hw 8 1 (min (C + 2) (vlmax hw)) @ (?B @ U)"
    by (simp only: run U(1) st append_assoc)
  moreover have "list_all (slide_ok C) (?B @ U)" using B U(2) by simp
  ultimately show ?thesis by blast
qed

lemma new_slidesI: "slide_src s' = slide_src s @ T \<Longrightarrow> new_slides s s' = T"
  by (simp add: new_slides_def)

lemma fconv2d_3x3_slides_ok:
  "list_all (slide_ok C) (new_slides s (fconv2d_3x3 hw ob i f R C 3 s))"
proof -
  from fconv2d_3x3_slides [of hw ob i f R C s] obtain T where
    T: "slide_src (fconv2d_3x3 hw ob i f R C 3 s) =
          slide_src s @ slide_row hw 8 1 (min (C + 2) (vlmax hw)) @ T" "list_all (slide_ok C) T"
    by auto
  have "list_all (slide_ok C) (slide_row hw 8 1 (min (C + 2) (vlmax hw)) @ T)"
    using T(2) by (simp only: list_all_append slide_row_ok8 simp_thms)
  then show ?thesis by (simp only: new_slidesI [OF T(1)])
qed

text \<open>
  Where the register group has more than \<open>C + 2\<close> elements, the first slide of the first
  block reads element \<open>C + 2\<close> of \<^verbatim>\<open>v8\<close>, which the load of the row did not fill.
\<close>

lemma slide_past_row:
  assumes "C + 2 < vlmax hw"
  shows "(8, C + 2) \<in> set (new_slides s (fconv2d_3x3 hw ob i f R C 3 s))"
proof -
  from fconv2d_3x3_slides [of hw ob i f R C s] obtain T where
    T: "slide_src (fconv2d_3x3 hw ob i f R C 3 s) =
          slide_src s @ slide_row hw 8 1 (min (C + 2) (vlmax hw)) @ T"
    by auto
  have m: "min (C + 2) (vlmax hw) = C + 2" using assms by simp
  have "(8, C + 2 - 1 + 1) \<in> set (slide_row hw 8 1 (C + 2))"
    by (rule slide_row_last) (use assms in simp_all)
  then have "(8, C + 2) \<in> set (slide_row hw 8 1 (min (C + 2) (vlmax hw)))"
    by (simp only: m) simp
  then show ?thesis by (simp only: new_slidesI [OF T] set_append UnI1)
qed

lemma preload_tail:
  assumes "min (C + 2) (vlmax hw) \<le> l"
  shows "vreg (fconv2d_vec_4xC_slice_preload_3x3 hw i C 3 s) 8 l = None"
  using assms unfolding fconv2d_vec_4xC_slice_preload_3x3_def Let_def
  by (auto simp: vle64_v_def vsetvli_def)

section \<open>Runs on concrete data\<close>

lemma valid_demo:
  "valid_call 1600 0 800 4 2" "valid_call 1600 0 800 4 8" "valid_call 1600 0 800 4 1"
  "valid_call 1600 0 800 8 2"
  by (simp_all add: valid_call_def ptr_add_def)

lemmas eval_simps = kernel_elem_def conv_sum_def mac_chain_def taps_eq tap_def hw_int_def
  filter_at_def input_at_def output_addr_def ptr_add_def image_state_def ones_state_def

lemma fconv2d_3x3_one_block:
  "fconv2d_3x3 hw ob i f 4 C 3 s = snd (snd (fconv2d_3x3_first hw ob i f C 3 s))"
  by (simp add: fconv2d_3x3_rounds case_prod_beta)

lemma one_block_skip:
  assumes "q < 4" "vlmax hw \<le> c" "c < C"
  shows "mem (fconv2d_3x3 hw ob i f 4 C 3 s) (output_addr ob C q c) = mem s (output_addr ob C q c)"
  unfolding fconv2d_3x3_one_block output_addr_def
  by (simp add: first_eq Let_def mem_simps move_mem first_block_def helper_skip [OF assms]
        preload_mem)

text \<open>
  The scalars \<open>t0\<close>, \<open>t1\<close>, \<open>t2\<close> are loaded once, before the loop. At the head of every
  round the filter buffer still holds these values in its first column.
\<close>

lemma loop_scalars:
  assumes valid: "valid_call ob i f R C" and le: "4 * Suc k \<le> R"
    and first: "fconv2d_3x3_first hw ob i f C 3 s = ((t0, t1, t2), st)"
  shows "t0 = mem (snd (rounds hw ob i f C 3 t0 t1 t2 k st)) f"
    and "t1 = mem (snd (rounds hw ob i f C 3 t0 t1 t2 k st)) (ptr_add f 3)"
    and "t2 = mem (snd (rounds hw ob i f C 3 t0 t1 t2 k st)) (ptr_add f 6)"
proof -
  let ?st = "rounds hw ob i f C 3 t0 t1 t2 k st"
  from first_done [OF valid, of hw s]
  have st: "blocks_done hw ob i f C (mem s) 1 st"
    and t: "t0 = filter_at (mem s) f 0 0" "t1 = filter_at (mem s) f 1 0" "t2 = filter_at (mem s) f 2 0"
    by (simp_all add: first)
  have "blocks_done hw ob i f C (mem s) (Suc k) (fst ?st, snd ?st)"
    using rounds_done [OF valid le st t] by simp
  note frame = blocks_doneD(2) [OF this]
  have "filter_at (mem (snd ?st)) f x 0 = filter_at (mem s) f x 0" if "x < 3" for x
    by (rule filter_kept [OF valid le frame that]) simp_all
  from this [of 0] this [of 1] this [of 2] t
  show "t0 = mem (snd ?st) f" "t1 = mem (snd ?st) (ptr_add f 3)" "t2 = mem (snd ?st) (ptr_add f 6)"
    by (simp_all add: filter_at_def ptr_add_def)
qed

text \<open>
  On every machine, an output column that the register group has no element for is never
  stored to.
\<close>

lemma wide_row_not_stored:
  assumes "0 < R" "4 dvd R" "vlmax hw \<le> c" "c < C"
  shows "output_addr ob C r c \<notin>
           set (stores_of (new_accesses s (fconv2d_3x3 hw ob i f R C 3 s)))"
proof
  assume "output_addr ob C r c \<in> set (stores_of (new_accesses s (fconv2d_3x3 hw ob i f R C 3 s)))"
  then obtain r' c' where c': "c' < vlmax hw" "c' < C"
    and eq: "output_addr ob C r c = output_addr ob C r' c'"
    unfolding fconv2d_3x3_stores [OF assms(1,2)] by (auto simp: row_cells_def)
  from eq have "r * C + c = r' * C + c'" by (simp add: output_addr_def ptr_add_def)
  then have "(r * C + c) mod C = (r' * C + c') mod C" by simp
  then have "c = c'" using assms(4) c'(2) by simp
  then show False using c'(1) assms(3) by simp
qed

text \<open>
  A row wider than the register group at another size: \<open>128\<close> elements per group,
  \<open>C = 256\<close>, every input and filter element \<open>1\<close>. The element \<open>output[0][127]\<close> is
  stored as \<open>3\<close>; the sum of the specification is \<open>9\<close>.
\<close>

lemma wide_row_vlmax_128:
  "valid_call 30000 0 20000 4 256 \<and>
   mem (fconv2d_3x3 (hw_int 128) 30000 0 20000 4 256 3 (ones_state 1))
     (output_addr 30000 256 0 127) = Some 3 \<and>
   conv_sum (hw_int 128) (filter_at (mem (ones_state 1)) 20000)
     (input_at (mem (ones_state 1)) 0 256) 0 127 = Some 9"
proof -
  have v: "valid_call 30000 0 20000 4 256" by (simp add: valid_call_def ptr_add_def)
  have "(127::nat) < vlmax (hw_int 128)" by (simp add: hw_int_def)
  from fconv2d_3x3_elem [OF v _ _ this, of 0 "ones_state 1"] v
  show ?thesis by (simp add: eval_simps)
qed

section \<open>The claims\<close>

subsection \<open>C1: every output element is the column-major sum\<close>

text \<open>
  C1 as stated fails where a row is wider than the register group. On a machine with four
  elements per group (\<open>vlmax = 4\<close>), the call with \<open>R = 4\<close>, \<open>C = 8\<close> and every input and
  filter element \<open>1\<close> stores \<open>3\<close> in \<open>output[0][3]\<close>: \<^verbatim>\<open>vsetvli\<close> grants four elements,
  and for element \<open>3\<close> the rows slid down by one and by two deliver the fill value. The sum
  of the specification is \<open>9\<close>.
\<close>

theorem fconv2d_3x3_wide_row_counterexample:
  "mem (fconv2d_3x3 (hw_int 4) 1600 0 800 4 8 3 (ones_state 1)) (output_addr 1600 8 0 3) = Some 3 \<and>
   conv_sum (hw_int 4) (filter_at (mem (ones_state 1)) 800) (input_at (mem (ones_state 1)) 0 8) 0 3
     = Some 9"
proof -
  have "(3::nat) < vlmax (hw_int 4)" by (simp add: hw_int_def)
  from fconv2d_3x3_elem [OF valid_demo(2) _ _ this, of 0 "ones_state 1"]
  show ?thesis by (simp add: eval_simps)
qed

text \<open>
  C1, amended: for every valid call whose padded row fits in a register group
  (\<open>C + 2 \<le> vlmax\<close>), every output element \<open>output[r][c]\<close> is the sum over \<open>i, j < 3\<close> of
  \<open>filter[i][j] * input[r+i][c+j]\<close> accumulated with \<open>j\<close> outer and \<open>i\<close> inner: the first
  product by \<^verbatim>\<open>vfmul.vf\<close>, each further term by one \<^verbatim>\<open>vfmacc.vf\<close>. The equation
  holds for every choice of the two operations, hence bit for bit for the doubles.
\<close>

theorem fconv2d_3x3_conv_sum:
  assumes "valid_call ob i f R C" and "C + 2 \<le> vlmax hw" and "r < R" and "c < C"
  shows "mem (fconv2d_3x3 hw ob i f R C 3 s) (output_addr ob C r c) =
           conv_sum hw (filter_at (mem s) f) (input_at (mem s) i C) r c"
proof -
  have c: "c < vlmax hw" "c + 2 < vlmax hw" using assms(2,4) by simp_all
  show ?thesis
    unfolding fconv2d_3x3_elem [OF assms(1,3,4) c(1)] by (rule kernel_elem_conv_sum [OF c(2)])
qed

text \<open>A run of C1: \<open>R = 4\<close>, \<open>C = 2\<close>, eight elements per group, element \<open>output[1][1]\<close>.\<close>

theorem fconv2d_3x3_conv_sum_witness:
  "valid_call 1600 0 800 4 2 \<and> 2 + 2 \<le> vlmax (hw_int 8) \<and>
   mem (fconv2d_3x3 (hw_int 8) 1600 0 800 4 2 3 image_state) (output_addr 1600 2 1 1) = Some 9438"
proof -
  have v: "2 + 2 \<le> vlmax (hw_int 8)" by (simp add: hw_int_def)
  from fconv2d_3x3_conv_sum [OF valid_demo(1) v, of 1 1 image_state]
  show ?thesis using valid_demo(1) v by (simp add: eval_simps)
qed

subsection \<open>C2: the row window\<close>




subsection \<open>C3: the two block computations agree\<close>

text \<open>
  C3: started on the same window (the rows that \<^verbatim>\<open>fconv2d_vec_4xC_3x3\<close> finds in
  \<^verbatim>\<open>v8\<close>, \<^verbatim>\<open>v10\<close> are in \<^verbatim>\<open>v16\<close>, \<^verbatim>\<open>v18\<close> for the loop body, which moves them
  first), the same memory and so the same filter and the same four rows to load, with
  \<open>t0\<close>, \<open>t1\<close>, \<open>t2\<close> the first filter column, the loop body and
  \<^verbatim>\<open>fconv2d_vec_4xC_3x3\<close> store the same value in every element of the four output rows.
  The equation holds for every choice of the two arithmetic operations, so both apply the
  same operations to the same operands in the same order. That the scalars loaded before
  the loop are the first filter column at every round is \<open>loop_scalars\<close>.
\<close>

theorem block_compute_agree:
  assumes "q < 4" and "c < C" and "c < vlmax hw"
    and "vreg s2 16 = vreg s1 8" and "vreg s2 18 = vreg s1 10" and "mem s2 = mem s1"
  shows "mem (snd (fconv2d_3x3_body hw ob i f C 3
                     (mem s2 f) (mem s2 (ptr_add f 3)) (mem s2 (ptr_add f 6)) r (i'', s2)))
           (ptr_add (ptr_add ob (r * C)) (q * C + c)) =
         mem (fconv2d_vec_4xC_3x3 hw (ptr_add ob (r * C)) i'' f C 3 s1)
           (ptr_add (ptr_add ob (r * C)) (q * C + c))"
  unfolding body_out [OF assms(1-3)] helper_out [OF assms(1-3)]
proof (rule mac_chain_cong)
  fix x y :: nat assume x: "x < 3" and "y < 3"
  from x consider "x = 0" | "x = 1" | "x = 2" by linarith
  then show "coef0 (mem s2 f) (mem s2 (ptr_add f 3)) (mem s2 (ptr_add f 6)) (mem s2) f x y =
      filter_at (mem s1) f x y"
    by cases (simp_all add: coef0_def filter_at_def assms(6) ptr_add_def)
  show "tap hw (win s2 16 18 i'' C (q + x)) y c = tap hw (win s1 8 10 i'' C (q + x)) y c"
    by (simp add: win_def assms(4-6))
qed

text \<open>A run of C3: output row \<open>2\<close>, column \<open>1\<close> of a block with \<open>C = 2\<close>.\<close>

theorem block_compute_agree_witness:
  "(2::nat) < 4 \<and> (1::nat) < 2 \<and> 1 < vlmax (hw_int 8) \<and>
   vreg (window_state 16 18) 16 = vreg (window_state 8 10) 8 \<and>
   vreg (window_state 16 18) 18 = vreg (window_state 8 10) 10 \<and>
   mem (window_state 16 18) = mem (window_state 8 10) \<and>
   mem (snd (fconv2d_3x3_body (hw_int 8) 1600 0 800 2 3
               (mem (window_state 16 18) 800) (mem (window_state 16 18) (ptr_add 800 3))
               (mem (window_state 16 18) (ptr_add 800 6)) 4 (192, window_state 16 18)))
       (ptr_add (ptr_add 1600 (4 * 2)) (2 * 2 + 1)) =
   mem (fconv2d_vec_4xC_3x3 (hw_int 8) (ptr_add 1600 (4 * 2)) 192 800 2 3 (window_state 8 10))
       (ptr_add (ptr_add 1600 (4 * 2)) (2 * 2 + 1))"
proof -
  have h: "(2::nat) < 4" "(1::nat) < 2" "1 < vlmax (hw_int 8)"
    "vreg (window_state 16 18) 16 = vreg (window_state 8 10) 8"
    "vreg (window_state 16 18) 18 = vreg (window_state 8 10) 10"
    "mem (window_state 16 18) = mem (window_state 8 10)"
    by (simp_all add: hw_int_def window_state_def)
  from block_compute_agree [OF h, of 1600 0 800 4 192] h show ?thesis by simp
qed

subsection \<open>C4: every output element is written once, in row-major order\<close>

text \<open>
  C4 as stated fails where a row is wider than the register group: with four elements per
  group and \<open>C = 8\<close> the run with \<open>R = 4\<close> makes \<open>16\<close> element stores, not \<open>32\<close>, and
  none to \<open>output[0][4]\<close>.
\<close>

theorem stores_skip_columns_counterexample:
  "length (stores_of (new_accesses (ones_state 1)
      (fconv2d_3x3 (hw_int 4) 1600 0 800 4 8 3 (ones_state 1)))) = 16 \<and>
   output_addr 1600 8 0 4 \<notin> set (stores_of (new_accesses (ones_state 1)
      (fconv2d_3x3 (hw_int 4) 1600 0 800 4 8 3 (ones_state 1))))"
  by (simp add: fconv2d_3x3_stores hw_int_def row_cells_def output_addr_def ptr_add_def
        upt_conv_Cons)

text \<open>
  C4, amended: for every valid \<open>R\<close> and every \<open>C\<close> that fits in a register group
  (\<open>C \<le> vlmax\<close>), the element stores of a run are, in program order, the addresses of
  \<open>output[0]\<close>, \<open>output[1]\<close>, \<dots>, \<open>output[R * C - 1]\<close>: every element once, row-major.
\<close>

theorem stores_row_major:
  assumes "0 < R" and "4 dvd R" and "C \<le> vlmax hw"
  shows "stores_of (new_accesses s (fconv2d_3x3 hw ob i f R C 3 s)) = map (ptr_add ob) [0..<R * C]"
proof -
  have "min C (vlmax hw) = C" using assms(3) by simp
  then show ?thesis
    unfolding fconv2d_3x3_stores [OF assms(1,2)] by (simp add: row_cells_all)
qed

text \<open>A run of C4: the eight stores of \<open>R = 4\<close>, \<open>C = 2\<close>.\<close>

theorem stores_row_major_witness:
  "(0::nat) < 4 \<and> (4::nat) dvd 4 \<and> 2 \<le> vlmax (hw_int 8) \<and>
   stores_of (new_accesses image_state (fconv2d_3x3 (hw_int 8) 1600 0 800 4 2 3 image_state)) =
     [1600, 1608, 1616, 1624, 1632, 1640, 1648, 1656]"
proof -
  have v: "2 \<le> vlmax (hw_int 8)" by (simp add: hw_int_def)
  from stores_row_major [OF _ _ v, of 4 image_state 1600 0 800]
  show ?thesis using v by (simp add: ptr_add_def upt_conv_Cons)
qed

subsection \<open>C5: termination and the number of rounds\<close>

text \<open>
  C5: for every \<open>R\<close> that is a positive multiple of four the loop, entered with the cursor
  at \<open>block_size_o\<close>, returns with the cursor at \<open>R\<close> after exactly \<open>R / 4 - 1\<close> rounds of
  its body, and \<^verbatim>\<open>fconv2d_3x3\<close> is the part before the loop, run once, followed by these
  rounds. \<open>fconv2d_3x3_loop\<close> is a total function (its termination is proved with the
  definition), and no function of the model has a failure value.
\<close>

theorem loop_rounds_exact:
  assumes "0 < R" and "4 dvd R"
  shows "fconv2d_3x3_loop hw ob i f R C F t0 t1 t2 block_size_o st =
           (R, rounds hw ob i f C F t0 t1 t2 (R div 4 - 1) st) \<and>
         fconv2d_3x3 hw ob i f R C F s =
           (let ((t0, t1, t2), st) = fconv2d_3x3_first hw ob i f C F s
            in snd (rounds hw ob i f C F t0 t1 t2 (R div 4 - 1) st))"
proof -
  from assms obtain n where R: "R = 4 * Suc n"
    by (metis dvdE gr0_implies_Suc mult_0_right not_gr_zero)
  have n: "(R + 3) div 4 - 1 = R div 4 - 1" "block_size_o * Suc (R div 4 - 1) = R"
    by (simp_all add: R block_size_o_def)
  from loop_rounds [of 0 R hw ob i f C F t0 t1 t2 st] show ?thesis
    unfolding fconv2d_3x3_rounds n by simp
qed

text \<open>A run of C5: \<open>R = 8\<close>, one round.\<close>

theorem loop_rounds_exact_witness:
  "(0::nat) < 8 \<and> (4::nat) dvd 8 \<and>
   fconv2d_3x3_loop (hw_int 8) 1600 0 800 8 2 3 (Some 1) (Some 2) (Some 3) block_size_o
       (0, image_state) =
     (8, fconv2d_3x3_body (hw_int 8) 1600 0 800 2 3 (Some 1) (Some 2) (Some 3) 4 (0, image_state))"
  using loop_rounds_exact [of 8 "hw_int 8" 1600 0 800 2 3 "Some 1" "Some 2" "Some 3"
      "(0, image_state)" image_state]
  by (simp add: block_size_o_def)

subsection \<open>C7: the input and the filter are left unchanged\<close>

text \<open>
  C7: after a valid call every element of the input buffer and of the filter buffer holds
  the value it held before, and so does every memory cell outside the \<open>R * C\<close> elements of
  the output buffer.
\<close>

theorem input_filter_unchanged:
  assumes "valid_call ob i f R C"
  shows "(\<forall>k<(R + 2) * (C + 2). mem (fconv2d_3x3 hw ob i f R C 3 s) (ptr_add i k) = mem s (ptr_add i k)) \<and>
         (\<forall>k<9. mem (fconv2d_3x3 hw ob i f R C 3 s) (ptr_add f k) = mem s (ptr_add f k)) \<and>
         (\<forall>a. a < ob \<or> ptr_add ob (R * C) \<le> a \<longrightarrow> mem (fconv2d_3x3 hw ob i f R C 3 s) a = mem s a)"
proof (intro conjI allI impI)
  fix a assume "a < ob \<or> ptr_add ob (R * C) \<le> a"
  then show "mem (fconv2d_3x3 hw ob i f R C 3 s) a = mem s a"
    by (rule fconv2d_3x3_frame [OF assms])
next
  fix k :: nat assume "k < 9"
  from filter_disjoint [OF assms this order_refl]
  show "mem (fconv2d_3x3 hw ob i f R C 3 s) (ptr_add f k) = mem s (ptr_add f k)"
    by (rule fconv2d_3x3_frame [OF assms])
next
  fix k :: nat assume k: "k < (R + 2) * (C + 2)"
  from assms consider "ob + 8 * (R * C) \<le> i" | "i + 8 * ((R + 2) * (C + 2)) \<le> ob"
    by (auto simp: valid_call_def ptr_add_def)
  then have "ptr_add i k < ob \<or> ptr_add ob (R * C) \<le> ptr_add i k"
    using k unfolding ptr_add_def by cases linarith+
  then show "mem (fconv2d_3x3 hw ob i f R C 3 s) (ptr_add i k) = mem s (ptr_add i k)"
    by (rule fconv2d_3x3_frame [OF assms])
qed

text \<open>A run of C7: the last input element, the last filter element, the cell after the output.\<close>

theorem input_filter_unchanged_witness:
  "valid_call 1600 0 800 4 2 \<and>
   mem (fconv2d_3x3 (hw_int 8) 1600 0 800 4 2 3 image_state) (ptr_add 0 23) = Some 23 \<and>
   mem (fconv2d_3x3 (hw_int 8) 1600 0 800 4 2 3 image_state) (ptr_add 800 8) = Some 108 \<and>
   mem (fconv2d_3x3 (hw_int 8) 1600 0 800 4 2 3 image_state) 1664 = Some 208"
  using input_filter_unchanged [OF valid_demo(1), of "hw_int 8" image_state] valid_demo(1)
  by (simp add: ptr_add_def image_state_def)

subsection \<open>C8: the smallest case\<close>

text \<open>
  C8: for \<open>R = 4\<close>, \<open>C = 1\<close> on a \<open>6 \<times> 3\<close> padded input, on a machine whose register group
  holds the three elements of a padded row, the run stores exactly the four elements of a
  \<open>4 \<times> 1\<close> output, each the column-major sum at its position; the loop makes no round
  and the result is the state the part before the loop leaves.
\<close>

theorem smallest_case:
  assumes "valid_call ob i f 4 1" and "3 \<le> vlmax hw"
  shows "(\<forall>r<4. mem (fconv2d_3x3 hw ob i f 4 1 3 s) (output_addr ob 1 r 0) =
                  conv_sum hw (filter_at (mem s) f) (input_at (mem s) i 1) r 0) \<and>
         stores_of (new_accesses s (fconv2d_3x3 hw ob i f 4 1 3 s)) =
           [ptr_add ob 0, ptr_add ob 1, ptr_add ob 2, ptr_add ob 3] \<and>
         fconv2d_3x3 hw ob i f 4 1 3 s = snd (snd (fconv2d_3x3_first hw ob i f 1 3 s)) \<and>
         fconv2d_3x3_loop hw ob i f 4 1 3 t0 t1 t2 block_size_o st = (block_size_o, st)"
proof (intro conjI allI impI)
  fix r :: nat assume r: "r < 4"
  have c: "(0::nat) < vlmax hw" "(0::nat) + 2 < vlmax hw" using assms(2) by simp_all
  have "mem (fconv2d_3x3 hw ob i f 4 1 3 s) (output_addr ob 1 r 0) =
          kernel_elem hw (filter_at (mem s) f) (input_at (mem s) i 1) r 0"
    by (rule fconv2d_3x3_elem [OF assms(1) r _ c(1)]) simp
  then show "mem (fconv2d_3x3 hw ob i f 4 1 3 s) (output_addr ob 1 r 0) =
          conv_sum hw (filter_at (mem s) f) (input_at (mem s) i 1) r 0"
    by (simp only: kernel_elem_conv_sum [OF c(2)])
next
  have "min 1 (vlmax hw) = 1" using assms(2) by simp
  then show "stores_of (new_accesses s (fconv2d_3x3 hw ob i f 4 1 3 s)) =
      [ptr_add ob 0, ptr_add ob 1, ptr_add ob 2, ptr_add ob 3]"
    by (simp add: fconv2d_3x3_stores row_cells_def output_addr_def upt_conv_Cons ptr_add_def)
next
  show "fconv2d_3x3 hw ob i f 4 1 3 s = snd (snd (fconv2d_3x3_first hw ob i f 1 3 s))"
    by (rule fconv2d_3x3_one_block)
next
  show "fconv2d_3x3_loop hw ob i f 4 1 3 t0 t1 t2 block_size_o st = (block_size_o, st)"
    by (subst fconv2d_3x3_loop.simps) (simp add: block_size_o_def)
qed

text \<open>A run of C8 on a machine with four elements per group.\<close>

theorem smallest_case_witness:
  "valid_call 1600 0 800 4 1 \<and> 3 \<le> vlmax (hw_int 4) \<and>
   mem (fconv2d_3x3 (hw_int 4) 1600 0 800 4 1 3 image_state) (output_addr 1600 1 3 0) = Some 12228 \<and>
   stores_of (new_accesses image_state (fconv2d_3x3 (hw_int 4) 1600 0 800 4 1 3 image_state)) =
     [1600, 1608, 1616, 1624]"
proof -
  have v: "3 \<le> vlmax (hw_int 4)" by (simp add: hw_int_def)
  note w = smallest_case [OF valid_demo(3) v, of image_state]
  from w [THEN conjunct1, rule_format, of 3] w [THEN conjunct2, THEN conjunct1]
  show ?thesis using valid_demo(3) v by (simp add: eval_simps)
qed

subsection \<open>C9: determinism\<close>

text \<open>
  C9 as stated fails where a row is wider than the register group. The two runs below have
  the same arguments, the same \<open>60\<close> input elements and the same \<open>9\<close> filter elements; the
  states differ only in what the output buffer holds at the call (element \<open>5\<close> is \<open>0\<close> in
  one and \<open>7\<close> in the other). With four elements per group and \<open>C = 8\<close> the kernel never
  stores to \<open>output[0][5]\<close>, so the two output buffers differ after the call.
\<close>

theorem stale_output_counterexample:
  "map (\<lambda>k. mem (ones_state 0) (ptr_add 0 k)) [0..<60] =
     map (\<lambda>k. mem (ones_state 7) (ptr_add 0 k)) [0..<60] \<and>
   map (\<lambda>k. mem (ones_state 0) (ptr_add 800 k)) [0..<9] =
     map (\<lambda>k. mem (ones_state 7) (ptr_add 800 k)) [0..<9] \<and>
   mem (fconv2d_3x3 (hw_int 4) 1600 0 800 4 8 3 (ones_state 0)) (output_addr 1600 8 0 5) = Some 0 \<and>
   mem (fconv2d_3x3 (hw_int 4) 1600 0 800 4 8 3 (ones_state 7)) (output_addr 1600 8 0 5) = Some 7"
proof -
  have "mem (fconv2d_3x3 (hw_int 4) 1600 0 800 4 8 3 (ones_state v)) (output_addr 1600 8 0 5) =
          Some v" for v
    by (subst one_block_skip) (simp_all add: hw_int_def ones_state_def output_addr_def ptr_add_def)
  then show ?thesis by (simp add: ones_state_def ptr_add_def)
qed

text \<open>
  C9, amended: two valid calls on the same machine with the same \<open>R\<close> and \<open>C\<close>, whose
  padded row fits in a register group (\<open>C + 2 \<le> vlmax\<close>), whose input buffers hold the
  same elements and whose filter buffers hold the same elements, leave the same elements in
  their output buffers, whatever else the two states hold (registers, vector length, the old
  content of the output buffers) and wherever the buffers lie.
\<close>

theorem runs_agree:
  assumes "valid_call ob1 i1 f1 R C" and "valid_call ob2 i2 f2 R C" and "C + 2 \<le> vlmax hw"
    and "\<forall>k<(R + 2) * (C + 2). mem s1 (ptr_add i1 k) = mem s2 (ptr_add i2 k)"
    and "\<forall>k<9. mem s1 (ptr_add f1 k) = mem s2 (ptr_add f2 k)"
  shows "\<forall>k<R * C. mem (fconv2d_3x3 hw ob1 i1 f1 R C 3 s1) (ptr_add ob1 k) =
                     mem (fconv2d_3x3 hw ob2 i2 f2 R C 3 s2) (ptr_add ob2 k)"
proof (intro allI impI)
  fix k assume k: "k < R * C"
  define r c where "r = k div C" and "c = k mod C"
  have C: "0 < C" using assms(1) by (simp add: valid_call_def)
  have rc: "r < R" "c < C" "k = r * C + c"
    using k C by (simp_all add: r_def c_def less_mult_imp_div_less)
  have cv: "c < vlmax hw" using rc(2) assms(3) by simp
  have addr: "ptr_add ob k = output_addr ob C r c" for ob
    by (simp add: output_addr_def rc(3))
  have "kernel_elem hw (filter_at (mem s1) f1) (input_at (mem s1) i1 C) r c =
        kernel_elem hw (filter_at (mem s2) f2) (input_at (mem s2) i2 C) r c"
  proof (rule kernel_elem_cong [OF _ _ rc(2)])
    fix x y :: nat assume "x < 3" "y < 3"
    then have "3 * x + y < 9" by simp
    then show "filter_at (mem s1) f1 x y = filter_at (mem s2) f2 x y"
      using assms(5) by (simp add: filter_at_def)
  next
    fix n l :: nat assume "n < 3" and l: "l < C + 2"
    then have "r + n < R + 2" using rc(1) by simp
    then have "(r + n) * (C + 2) + l < (R + 2) * (C + 2)" using l by (rule cell_lt)
    then show "input_at (mem s1) i1 C (r + n) l = input_at (mem s2) i2 C (r + n) l"
      using assms(4) by (simp add: input_at_def)
  qed
  then show "mem (fconv2d_3x3 hw ob1 i1 f1 R C 3 s1) (ptr_add ob1 k) =
             mem (fconv2d_3x3 hw ob2 i2 f2 R C 3 s2) (ptr_add ob2 k)"
    unfolding addr
    by (simp only: fconv2d_3x3_elem [OF assms(1) rc(1,2) cv] fconv2d_3x3_elem [OF assms(2) rc(1,2) cv])
qed

text \<open>A run of C9: two states that differ in vector length and trace, last output element.\<close>

theorem runs_agree_witness:
  "valid_call 1600 0 800 4 2 \<and> 2 + 2 \<le> vlmax (hw_int 8) \<and>
   mem (fconv2d_3x3 (hw_int 8) 1600 0 800 4 2 3 image_state) (ptr_add 1600 7) =
   mem (fconv2d_3x3 (hw_int 8) 1600 0 800 4 2 3 (image_state\<lparr>vl := 5, trace := [FLoad 0]\<rparr>))
     (ptr_add 1600 7)"
proof -
  have v: "2 + 2 \<le> vlmax (hw_int 8)" by (simp add: hw_int_def)
  from runs_agree [OF valid_demo(1) valid_demo(1) v, of image_state
      "image_state\<lparr>vl := 5, trace := [FLoad 0]\<rparr>"]
  show ?thesis using valid_demo(1) v by simp
qed

subsection \<open>C10: every access is in bounds\<close>

text \<open>
  The last clause of C10 fails: the slides do not stay within the \<open>C + 2\<close> elements loaded
  per row. The first slide of a block, \<^verbatim>\<open>vslidedown.vi v20, v8, 1\<close>, runs while the vector
  length is still \<open>C + 2\<close>, so for its last element it reads element \<open>C + 2\<close> of \<^verbatim>\<open>v8\<close>.
  In the run with \<open>C = 2\<close> on a machine with eight elements per group this is element
  \<open>4\<close>, which the load of the four elements of the row has left unspecified.
\<close>

theorem slide_reads_past_row_counterexample:
  "valid_call 1600 0 800 4 2 \<and>
   \<not> list_all (slide_in_row 2)
       (new_slides image_state (fconv2d_3x3 (hw_int 8) 1600 0 800 4 2 3 image_state)) \<and>
   (8, 4) \<in> set (new_slides image_state (fconv2d_3x3 (hw_int 8) 1600 0 800 4 2 3 image_state)) \<and>
   vreg (fconv2d_vec_4xC_slice_preload_3x3 (hw_int 8) 0 2 3 image_state) 8 4 = None"
proof -
  have "(2::nat) + 2 < vlmax (hw_int 8)" by (simp add: hw_int_def)
  from slide_past_row [OF this, of image_state 1600 0 800 4]
  have 1: "(8, 4) \<in> set (new_slides image_state
      (fconv2d_3x3 (hw_int 8) 1600 0 800 4 2 3 image_state))" by simp
  then have 2: "\<not> list_all (slide_in_row 2)
      (new_slides image_state (fconv2d_3x3 (hw_int 8) 1600 0 800 4 2 3 image_state))"
    by (force simp: list_all_iff slide_in_row_def)
  have "min (2 + 2) (vlmax (hw_int 8)) \<le> 4" by (simp add: hw_int_def)
  then have 3: "vreg (fconv2d_vec_4xC_slice_preload_3x3 (hw_int 8) 0 2 3 image_state) 8 4 = None"
    by (rule preload_tail)
  from 1 2 3 valid_demo(1) show ?thesis by simp
qed

text \<open>
  C10, amended: in a valid call every element read by \<^verbatim>\<open>vle64.v\<close> lies in the input
  buffer of \<open>(R + 2) * (C + 2)\<close> elements, every scalar read by \<^verbatim>\<open>fld\<close> in the filter
  buffer of \<open>9\<close> elements, every element written by \<^verbatim>\<open>vse64.v\<close> in the output buffer of
  \<open>R * C\<close> elements. Every register element read by a slide is one of the first \<open>C + 2\<close>
  of its register or element \<open>C + 2\<close> of \<^verbatim>\<open>v8\<close>. And what is read beyond the loaded
  elements does not reach the output: where the padded row fits in a register group
  (\<open>C + 2 \<le> vlmax\<close>) and the input and filter buffers are defined, every stored element is
  defined, whatever the registers held at the call. (An element of a register group that was
  not loaded is unspecified, and so is everything computed from it.)
\<close>

theorem accesses_in_bounds:
  assumes "valid_call ob i f R C"
  shows "list_all (access_ok ob i f R C) (new_accesses s (fconv2d_3x3 hw ob i f R C 3 s)) \<and>
         list_all (slide_ok C) (new_slides s (fconv2d_3x3 hw ob i f R C 3 s)) \<and>
         (C + 2 \<le> vlmax hw \<and>
          (\<forall>k<(R + 2) * (C + 2). mem s (ptr_add i k) \<noteq> None) \<and>
          (\<forall>k<9. mem s (ptr_add f k) \<noteq> None) \<longrightarrow>
          (\<forall>r<R. \<forall>c<C. mem (fconv2d_3x3 hw ob i f R C 3 s) (output_addr ob C r c) \<noteq> None))"
proof (intro conjI allI impI)
  have R: "0 < R" "4 dvd R" using assms by (simp_all add: valid_call_def)
  from fconv2d_3x3_accesses [OF R, of hw ob i f C s]
  show "list_all (access_ok ob i f R C) (new_accesses s (fconv2d_3x3 hw ob i f R C 3 s))"
    by (auto simp: new_accessesI)
next
  show "list_all (slide_ok C) (new_slides s (fconv2d_3x3 hw ob i f R C 3 s))"
    by (rule fconv2d_3x3_slides_ok)
next
  fix r c :: nat
  assume def: "C + 2 \<le> vlmax hw \<and> (\<forall>k<(R + 2) * (C + 2). mem s (ptr_add i k) \<noteq> None) \<and>
      (\<forall>k<9. mem s (ptr_add f k) \<noteq> None)"
    and r: "r < R" and c: "c < C"
  have cv: "c < vlmax hw" using def c by simp
  have "kernel_elem hw (filter_at (mem s) f) (input_at (mem s) i C) r c \<noteq> None"
    unfolding kernel_elem_def
  proof (rule mac_chain_defined)
    fix x y :: nat assume "x < 3" "y < 3"
    then have "3 * x + y < 9" by simp
    then show "filter_at (mem s) f x y \<noteq> None" using def by (simp add: filter_at_def)
  next
    fix n j :: nat assume n: "n < 3" and j: "j < 3"
    show "tap hw (input_at (mem s) i C (r + n)) j c \<noteq> None"
    proof (rule tap_defined [OF _ c j])
      fix l assume l: "l < C + 2"
      have "r + n < R + 2" using r n by simp
      then have "(r + n) * (C + 2) + l < (R + 2) * (C + 2)" using l by (rule cell_lt)
      then show "input_at (mem s) i C (r + n) l \<noteq> None" using def by (simp add: input_at_def)
    qed
  qed
  then show "mem (fconv2d_3x3 hw ob i f R C 3 s) (output_addr ob C r c) \<noteq> None"
    unfolding fconv2d_3x3_elem [OF assms r c cv] .
qed

text \<open>A run of C10: \<open>R = 4\<close>, \<open>C = 2\<close>, the last output element.\<close>

theorem accesses_in_bounds_witness:
  "valid_call 1600 0 800 4 2 \<and>
   list_all (access_ok 1600 0 800 4 2)
     (new_accesses image_state (fconv2d_3x3 (hw_int 8) 1600 0 800 4 2 3 image_state)) \<and>
   list_all (slide_ok 2)
     (new_slides image_state (fconv2d_3x3 (hw_int 8) 1600 0 800 4 2 3 image_state)) \<and>
   mem (fconv2d_3x3 (hw_int 8) 1600 0 800 4 2 3 image_state) (output_addr 1600 2 3 1) \<noteq> None"
proof -
  note w = accesses_in_bounds [OF valid_demo(1), of image_state "hw_int 8"]
  have "mem (fconv2d_3x3 (hw_int 8) 1600 0 800 4 2 3 image_state) (output_addr 1600 2 3 1) \<noteq> None"
    by (rule w [THEN conjunct2, THEN conjunct2, rule_format]) (simp_all add: image_state_def hw_int_def)
  with w [THEN conjunct1] w [THEN conjunct2, THEN conjunct1] valid_demo(1) show ?thesis by simp
qed

end
